theory Spec2Isabelle
  imports Main
begin

section \<open>Errors raised by the storage layer\<close>

text \<open>
  Every exception that the modelled code (or the library call it makes) can raise is a
  value of this type; a function that can raise returns \<open>error + 'a\<close>, with \<open>Inl\<close> the
  exception that leaves the function.
\<close>

datatype error =
    ValueError
  | KeyError
  | IndexError
  | AttributeError
  | ProgrammingError
  | IntegrityError
  | DataError

section \<open>The export worker (\<open>ParallelExporter.run\<close>)\<close>

text \<open>
  \<^verbatim>\<open>
  logger.info('[ParallelExporter] Running.')
  while True:
      try:
          data_name, dynamic_data = self.queue.get(timeout=1)
          logger.debug(f'[ParallelExporter] Exporting {data_name}.')
          self.data_manager.export_dynamic_data(...)
          logger.debug(f'[ParallelExporter] Export {data_name} is finished.')
      except queue.Empty:
          pass
      if self.exit and self.queue.empty():
          logger.info('[ParallelExporter] Exit.')
          break
  \<close>
  The thread has two program points inside the loop: the \<open>get\<close> (followed at once by
  the export of what it returned) and the exit check. Producers and the owner of the
  thread run concurrently with it, so a run of the system is an interleaving of three
  kinds of events: a producer's \<open>put\<close>, the owner setting \<open>exit\<close>, and one step of the
  thread. A \<open>get\<close> on a queue that stays empty for the whole timeout raises
  \<open>queue.Empty\<close>, the only exception the loop catches. The payloads are opaque: what
  the worker sees of an export is whether it returns or raises, the parameter \<open>ok\<close>.

  The state keeps the items handed to \<open>export_dynamic_data\<close>, in \<open>exported\<close>, and the
  calls \<open>run\<close> has made to its logger, in \<open>logged\<close>. An export that raises leaves
  \<open>run\<close> between the two \<open>debug\<close> calls: the thread is dead (\<open>Died\<close>), and the
  second call has not been made. \<open>init_exporter\<close> is the thread at the head of the loop,
  before its first \<open>get\<close>.
\<close>

datatype 'a log_entry = LogRunning | LogExporting 'a | LogFinished 'a | LogExit

datatype run_pc = AtGet | AtCheck | Exited | Died

record 'a exporter =
  queue :: "'a list"
  exit :: bool
  pc :: run_pc
  exported :: "'a list"
  logged :: "'a log_entry list"

datatype 'a event = Put 'a | SetExit | Run

definition init_exporter :: "'a exporter" where
  "init_exporter =
     \<lparr>queue = [], exit = False, pc = AtGet, exported = [], logged = [LogRunning]\<rparr>"

fun run_step :: "('a \<Rightarrow> bool) \<Rightarrow> 'a exporter \<Rightarrow> 'a exporter" where
  "run_step ok s =
     (case pc s of
        AtGet \<Rightarrow>
          (case queue s of
             [] \<Rightarrow> s\<lparr>pc := AtCheck\<rparr>
           | x # q \<Rightarrow>
               if ok x
               then s\<lparr>queue := q, exported := exported s @ [x],
                      logged := logged s @ [LogExporting x, LogFinished x], pc := AtCheck\<rparr>
               else s\<lparr>queue := q, exported := exported s @ [x],
                      logged := logged s @ [LogExporting x], pc := Died\<rparr>)
      | AtCheck \<Rightarrow>
          if exit s \<and> queue s = [] then s\<lparr>logged := logged s @ [LogExit], pc := Exited\<rparr>
          else s\<lparr>pc := AtGet\<rparr>
      | Exited \<Rightarrow> s
      | Died \<Rightarrow> s)"

fun step :: "('a \<Rightarrow> bool) \<Rightarrow> 'a exporter \<Rightarrow> 'a event \<Rightarrow> 'a exporter" where
  "step ok s (Put x) = s\<lparr>queue := queue s @ [x]\<rparr>"
| "step ok s SetExit = s\<lparr>exit := True\<rparr>"
| "step ok s Run = run_step ok s"

definition run :: "('a \<Rightarrow> bool) \<Rightarrow> 'a exporter \<Rightarrow> 'a event list \<Rightarrow> 'a exporter" where
  "run ok s es = foldl (step ok) s es"

fun puts :: "'a event list \<Rightarrow> 'a list" where
  "puts [] = []"
| "puts (Put x # es) = x # puts es"
| "puts (e # es) = puts es"

text \<open>
  The number of thread steps after which a worker whose \<open>exit\<close> is set has emptied its
  queue and left the loop, when no export raises: two per queued item (the \<open>get\<close> and
  the check), counted from the program point the thread is at.
\<close>

definition steps_needed :: "'a exporter \<Rightarrow> nat" where
  "steps_needed s =
     (case pc s of
        AtGet \<Rightarrow> max 2 (2 * length (queue s))
      | AtCheck \<Rightarrow> 2 * length (queue s) + 1
      | Exited \<Rightarrow> 0
      | Died \<Rightarrow> 0)"

text \<open>
  What \<open>run\<close> logs for the items it has handed to the export: the two \<open>debug\<close>
  calls around an export that returned, the first of them alone for an export that
  raised.
\<close>

definition export_log :: "('a \<Rightarrow> bool) \<Rightarrow> 'a list \<Rightarrow> 'a log_entry list" where
  "export_log ok xs =
     concat (map (\<lambda>x. if ok x then [LogExporting x, LogFinished x] else [LogExporting x]) xs)"

section \<open>Tabular data and the relational backend\<close>

text \<open>
  A cell of a DataFrame is a value or one of the two missing markers of pandas: \<open>NaN\<close>
  (numpy's \<open>nan\<close>, \<open>None\<close>, \<open>NaT\<close>) and \<open>NA\<close> (\<open>pd.NA\<close>). A frame is the
  DataFrame that \<open>_save_table_data\<close> hands to a backend, after \<open>reset_index\<close>: an
  ordered list of column names and the rows, each row mapping a column name to its cell.
\<close>

datatype 'v cell = Val 'v | NaN | NA

record 'v frame =
  columns :: "string list"
  rows :: "(string \<rightharpoonup> 'v cell) list"

text \<open>
  A row of a database table maps a column name to its value; \<open>None\<close> is SQL \<open>NULL\<close>.
  A table has its columns, the column of its primary key when it has one, the values
  each column can hold (its type: \<open>tholds T c v\<close> says that column \<open>c\<close> can hold \<open>v\<close>;
  every column can hold \<open>NULL\<close>), and its rows. \<open>to_sql\<close> writes both missing markers
  as \<open>NULL\<close>.
\<close>

type_synonym 'v row = "string \<rightharpoonup> 'v"

record 'v table =
  tcolumns :: "string list"
  tkey :: "string option"
  tholds :: "string \<Rightarrow> 'v \<Rightarrow> bool"
  trows :: "'v row list"

type_synonym 'v database = "string \<rightharpoonup> 'v table"

definition then_do :: "error + 'a \<Rightarrow> ('a \<Rightarrow> error + 'b) \<Rightarrow> error + 'b" where
  "then_do r f = (case r of Inl e \<Rightarrow> Inl e | Inr x \<Rightarrow> f x)"

definition sql_row :: "string list \<Rightarrow> (string \<rightharpoonup> 'v cell) \<Rightarrow> 'v row" where
  "sql_row cols r =
     (\<lambda>c. if c \<in> set cols then (case r c of Some (Val v) \<Rightarrow> Some v | _ \<Rightarrow> None) else None)"

definition row_fits :: "'v table \<Rightarrow> 'v row \<Rightarrow> bool" where
  "row_fits T s \<longleftrightarrow>
     list_all (\<lambda>c. case s c of None \<Rightarrow> True | Some v \<Rightarrow> tholds T c v) (tcolumns T)"

subsection \<open>Names written without quotes\<close>

text \<open>
  The save writes every table and column name between double quotes, except the
  conflict target: \<open>ON CONFLICT ({index_name})\<close>. PostgreSQL reads a word without
  quotes as a name only when it begins with a letter or an underscore and goes on with
  letters, digits, underscores and dollar signs, and is not a reserved key word; it
  folds the letters to lower case. So \<open>ID\<close> without quotes names the column \<open>id\<close>,
  and \<open>data id\<close>, \<open>1st\<close> or \<open>order\<close> name no column at all. The reserved key
  words of the server are a parameter, \<open>reserved\<close>.

  Names are names: ASCII text, shorter than the limit of the server for a name, without
  double quotes, colons, brackets or comment marks, which would change the statement
  around them rather than name something in it.
\<close>

definition upper_letters :: string where
  "upper_letters = ''ABCDEFGHIJKLMNOPQRSTUVWXYZ''"

definition lower_letters :: string where
  "lower_letters = ''abcdefghijklmnopqrstuvwxyz''"

definition lower :: "char \<Rightarrow> char" where
  "lower c = (case map_of (zip upper_letters lower_letters) c of Some l \<Rightarrow> l | None \<Rightarrow> c)"

definition unquoted_identifier :: "(string \<Rightarrow> bool) \<Rightarrow> string \<Rightarrow> string option" where
  "unquoted_identifier reserved n =
     (case n of
        [] \<Rightarrow> None
      | c # cs \<Rightarrow>
          if c \<in> set (upper_letters @ lower_letters @ ''_'')
             \<and> list_all (\<lambda>d. d \<in> set (upper_letters @ lower_letters @ ''_0123456789$'')) cs
             \<and> \<not> reserved (map lower n)
          then Some (map lower n) else None)"

subsection \<open>The statements the save issues, as PostgreSQL executes them\<close>

text \<open>
  Each statement runs in a transaction of its own (\<open>engine.begin()\<close>, and the
  transaction of \<open>to_sql\<close>): it either returns the new database or raises and changes
  nothing. Of the constraints of a table the primary key and the column types are
  modelled; \<open>NOT NULL\<close>, \<open>CHECK\<close> and foreign-key constraints, column defaults and
  triggers are not, and neither are keys of more than one column.

  \<open>CREATE TABLE "tmp" AS SELECT * FROM "t" WHERE false\<close>: a new table with the columns
  of \<open>t\<close> and their types, no key and no rows; an error when \<open>t\<close> does not exist or
  \<open>tmp\<close> does.
\<close>

definition create_table_as :: "'v database \<Rightarrow> string \<Rightarrow> string \<Rightarrow> error + 'v database" where
  "create_table_as db tmp t =
     (case db t of
        None \<Rightarrow> Inl ProgrammingError
      | Some T \<Rightarrow>
          (case db tmp of
             Some _ \<Rightarrow> Inl ProgrammingError
           | None \<Rightarrow>
               Inr (db(tmp \<mapsto> \<lparr>tcolumns = tcolumns T, tkey = None, tholds = tholds T,
                                  trows = []\<rparr>))))"

text \<open>
  A plain \<open>INSERT\<close> of rows, one after the other: into a table with a primary key, a
  row whose key is \<open>NULL\<close> or already present violates the constraint.
\<close>

fun insert_rows :: "string option \<Rightarrow> 'v row list \<Rightarrow> 'v row list \<Rightarrow> error + 'v row list" where
  "insert_rows key trs [] = Inr trs"
| "insert_rows key trs (s # ss) =
     (case key of
        None \<Rightarrow> insert_rows key (trs @ [s]) ss
      | Some idx \<Rightarrow>
          (case s idx of
             None \<Rightarrow> Inl IntegrityError
           | Some k \<Rightarrow>
               if \<exists>t\<in>set trs. t idx = Some k then Inl IntegrityError
               else insert_rows key (trs @ [s]) ss))"

text \<open>
  \<open>df.to_sql(name, engine, index=False, if_exists=mode)\<close>: pandas rejects a mode other
  than \<open>fail\<close>, \<open>replace\<close> and \<open>append\<close>; creates the table from the frame when it does
  not exist; otherwise raises (\<open>fail\<close>), drops and recreates it (\<open>replace\<close>), or
  inserts the rows (\<open>append\<close>), which needs every column of the frame in the table and
  every value to fit the type of its column (checked here before the keys: which error
  comes first when rows fail for both reasons is the driver's choice). The column types
  pandas gives a table it creates from a frame are a parameter, \<open>dtypes\<close>.
\<close>

definition to_sql ::
  "('v frame \<Rightarrow> string \<Rightarrow> 'v \<Rightarrow> bool) \<Rightarrow> 'v database \<Rightarrow> string \<Rightarrow> 'v frame \<Rightarrow> string
     \<Rightarrow> error + 'v database" where
  "to_sql dtypes db name df if_exists =
     (if if_exists \<notin> set [''fail'', ''replace'', ''append''] then Inl ValueError
      else
        (case db name of
           None \<Rightarrow>
             Inr (db(name \<mapsto> \<lparr>tcolumns = columns df, tkey = None, tholds = dtypes df,
                                 trows = map (sql_row (columns df)) (rows df)\<rparr>))
         | Some T \<Rightarrow>
             if if_exists = ''fail'' then Inl ValueError
             else if if_exists = ''replace'' then
               Inr (db(name \<mapsto> \<lparr>tcolumns = columns df, tkey = None, tholds = dtypes df,
                                   trows = map (sql_row (columns df)) (rows df)\<rparr>))
             else if \<not> set (columns df) \<subseteq> set (tcolumns T) then Inl ProgrammingError
             else if \<not> list_all (row_fits T) (map (sql_row (columns df)) (rows df))
             then Inl DataError
             else
               then_do (insert_rows (tkey T) (trows T) (map (sql_row (columns df)) (rows df)))
                 (\<lambda>trs. Inr (db(name \<mapsto> T\<lparr>trows := trs\<rparr>)))))"

text \<open>
  \<open>INSERT INTO "t" (cols) SELECT cols FROM "tmp" ON CONFLICT (idx) DO UPDATE SET
  c = EXCLUDED.c, ...\<close> (or \<open>DO NOTHING\<close> when there is no column to update), row by
  row of the selection; \<open>overwrite t s upd\<close> is the existing row \<open>t\<close> after
  \<open>SET c = EXCLUDED.c\<close> for each \<open>c\<close> of \<open>upd\<close>, \<open>NULL\<close>s included. \<open>touched\<close> are
  the keys this statement has inserted or updated already: PostgreSQL refuses to update
  a row a second time in one statement. A row whose key is \<open>NULL\<close> cannot enter the
  primary key.
\<close>

definition overwrite :: "'v row \<Rightarrow> 'v row \<Rightarrow> string list \<Rightarrow> 'v row" where
  "overwrite t s upd = (\<lambda>c. if c \<in> set upd then s c else t c)"

fun upsert_rows ::
  "string \<Rightarrow> string list \<Rightarrow> 'v list \<Rightarrow> 'v row list \<Rightarrow> 'v row list \<Rightarrow> error + 'v row list" where
  "upsert_rows idx upd touched trs [] = Inr trs"
| "upsert_rows idx upd touched trs (s # ss) =
     (case s idx of
        None \<Rightarrow> Inl IntegrityError
      | Some k \<Rightarrow>
          if \<exists>t\<in>set trs. t idx = Some k then
            (if upd = [] then upsert_rows idx upd (k # touched) trs ss
             else if k \<in> set touched then Inl ProgrammingError
             else upsert_rows idx upd (k # touched)
                    (map (\<lambda>t. if t idx = Some k then overwrite t s upd else t) trs) ss)
          else upsert_rows idx upd (k # touched) (trs @ [s]) ss)"

text \<open>
  The statement as a whole. The conflict target is the text of \<open>index_name\<close> (\<open>None\<close>
  for an index without a name) read as a name without quotes; it has to name a column
  with a unique index, and the one unique index of a table is that of its primary key.
  The listed columns have to exist in both tables, there has to be one at least, and the
  selected values have to fit the columns of the target.
\<close>

definition insert_on_conflict ::
  "(string \<Rightarrow> bool) \<Rightarrow> 'v database \<Rightarrow> string \<Rightarrow> string list \<Rightarrow> string \<Rightarrow> string option
     \<Rightarrow> string list \<Rightarrow> error + 'v database" where
  "insert_on_conflict reserved db t cols tmp index_name upd =
     (case (db t, db tmp) of
        (Some T, Some S) \<Rightarrow>
          (case unquoted_identifier reserved
                  (case index_name of None \<Rightarrow> ''None'' | Some n \<Rightarrow> n) of
             None \<Rightarrow> Inl ProgrammingError
           | Some idx \<Rightarrow>
               if cols = [] \<or> tkey T \<noteq> Some idx then Inl ProgrammingError
               else if \<not> set cols \<subseteq> set (tcolumns T) \<or> \<not> set cols \<subseteq> set (tcolumns S)
               then Inl ProgrammingError
               else if \<not> list_all (row_fits T) (map (\<lambda>r. r |` set cols) (trows S))
               then Inl DataError
               else
                 then_do (upsert_rows idx upd [] (trows T) (map (\<lambda>r. r |` set cols) (trows S)))
                   (\<lambda>trs. Inr (db(t \<mapsto> T\<lparr>trows := trs\<rparr>))))
      | _ \<Rightarrow> Inl ProgrammingError)"

definition drop_table :: "'v database \<Rightarrow> string \<Rightarrow> error + 'v database" where
  "drop_table db tmp = (case db tmp of None \<Rightarrow> Inl ProgrammingError | Some _ \<Rightarrow> Inr (db(tmp := None)))"

subsection \<open>\<open>DataStorageHandler._save_postgres_data\<close>\<close>

text \<open>
  \<^verbatim>\<open>
  if mode not in ('sync', 'append'):
      ValueError(f'Invalid mode: {mode}')
  ...
  if mode == 'sync':
      data_hash = hashlib.md5(str(df).encode()).hexdigest()
      table_name_tmp = f'{table_name}_{data_hash}'
      CREATE TABLE "tmp" AS SELECT * FROM "table" WHERE false
      df.to_sql(table_name_tmp, engine, index=False, if_exists='append')
      columns = df.columns.to_numpy().tolist()
      update_columns = [column for column in columns if column != index_name]
      INSERT ... ON CONFLICT (index_name) DO UPDATE SET ... / DO NOTHING
      DROP TABLE "tmp"
  else:
      df.to_sql(table_name, engine, index=False, if_exists=mode)
  \<close>
  The first statement builds a \<open>ValueError\<close> and drops it: there is no \<open>raise\<close>, so
  the check has no effect and is a value nobody reads in the model. The fingerprint
  \<open>md5\<close> of the frame is a parameter.

  \<open>save_postgres_data_run\<close> is the run of the function: the database it leaves behind
  and the exception that left it, if any. A statement that raises ends the run; what
  the statements before it have done stays (a staging table that is not dropped).
  \<open>save_postgres_data\<close> is what the caller gets: the exception, or the database.
\<close>

definition save_postgres_data_run ::
  "(string \<Rightarrow> bool) \<Rightarrow> ('v frame \<Rightarrow> string \<Rightarrow> 'v \<Rightarrow> bool) \<Rightarrow> ('v frame \<Rightarrow> string)
     \<Rightarrow> 'v database \<Rightarrow> string \<Rightarrow> 'v frame \<Rightarrow> string option \<Rightarrow> string
     \<Rightarrow> 'v database \<times> error option" where
  "save_postgres_data_run reserved dtypes md5 db table_name df index_name mode =
     (let unraised = (if mode \<notin> set [''sync'', ''append''] then Some ValueError else None) in
      if mode = ''sync'' then
        (let table_name_tmp = table_name @ ''_'' @ md5 df;
             update_columns = filter (\<lambda>column. Some column \<noteq> index_name) (columns df)
         in case create_table_as db table_name_tmp table_name of
              Inl e \<Rightarrow> (db, Some e)
            | Inr db1 \<Rightarrow>
                (case to_sql dtypes db1 table_name_tmp df ''append'' of
                   Inl e \<Rightarrow> (db1, Some e)
                 | Inr db2 \<Rightarrow>
                     (case insert_on_conflict reserved db2 table_name (columns df)
                             table_name_tmp index_name update_columns of
                        Inl e \<Rightarrow> (db2, Some e)
                      | Inr db3 \<Rightarrow>
                          (case drop_table db3 table_name_tmp of
                             Inl e \<Rightarrow> (db3, Some e)
                           | Inr db4 \<Rightarrow> (db4, None)))))
      else
        (case to_sql dtypes db table_name df mode of
           Inl e \<Rightarrow> (db, Some e)
         | Inr db' \<Rightarrow> (db', None)))"

definition save_postgres_data ::
  "(string \<Rightarrow> bool) \<Rightarrow> ('v frame \<Rightarrow> string \<Rightarrow> 'v \<Rightarrow> bool) \<Rightarrow> ('v frame \<Rightarrow> string)
     \<Rightarrow> 'v database \<Rightarrow> string \<Rightarrow> 'v frame \<Rightarrow> string option \<Rightarrow> string
     \<Rightarrow> error + 'v database" where
  "save_postgres_data reserved dtypes md5 db table_name df index_name mode =
     (case save_postgres_data_run reserved dtypes md5 db table_name df index_name mode of
        (db', None) \<Rightarrow> Inr db'
      | (db', Some e) \<Rightarrow> Inl e)"

subsection \<open>Reading the target back\<close>

text \<open>
  \<open>target_rows db t\<close> are the rows of table \<open>t\<close> (none when there is no such
  table); \<open>rows_with idx k trs\<close> are the rows whose column \<open>idx\<close> holds \<open>k\<close>
  (\<open>SELECT * FROM t WHERE idx = k\<close>). \<open>upserted\<close> says what the rows for a key have
  to be after the upsert of the staged rows \<open>ss\<close>, given the rows \<open>old\<close> the target
  held for that key before: unchanged when no staged row has the key, the staged row
  itself when the target had none, and the old rows overwritten otherwise.
\<close>

definition target_rows :: "'v database \<Rightarrow> string \<Rightarrow> 'v row list" where
  "target_rows db t = (case db t of None \<Rightarrow> [] | Some T \<Rightarrow> trows T)"

definition rows_with :: "string \<Rightarrow> 'v \<Rightarrow> 'v row list \<Rightarrow> 'v row list" where
  "rows_with idx k trs = filter (\<lambda>t. t idx = Some k) trs"

definition upserted ::
  "string \<Rightarrow> string list \<Rightarrow> 'v row list \<Rightarrow> 'v \<Rightarrow> 'v row list \<Rightarrow> 'v row list" where
  "upserted idx upd ss k old =
     (case find (\<lambda>s. s idx = Some k) ss of
        None \<Rightarrow> old
      | Some s \<Rightarrow> if old = [] then [s] else map (\<lambda>t. overwrite t s upd) old)"

subsection \<open>A small database to run the save on\<close>

text \<open>
  A target table \<open>t\<close> with primary key \<open>id\<close>, holding the row \<open>(1, 10)\<close>, and a
  dataset with the rows \<open>(1, 20)\<close> and \<open>(2, 30)\<close>.
\<close>

definition example_target :: "int table" where
  "example_target =
     \<lparr>tcolumns = [''id'', ''x''], tkey = Some ''id'', tholds = (\<lambda>c v. True),
      trows = [[''id'' \<mapsto> 1, ''x'' \<mapsto> 10]]\<rparr>"

definition example_db :: "int database" where
  "example_db = [''t'' \<mapsto> example_target]"

definition example_frame :: "int frame" where
  "example_frame =
     \<lparr>columns = [''id'', ''x''],
      rows = [[''id'' \<mapsto> Val 1, ''x'' \<mapsto> Val 20], [''id'' \<mapsto> Val 2, ''x'' \<mapsto> Val 30]]\<rparr>"

definition example_md5 :: "int frame \<Rightarrow> string" where
  "example_md5 df = ''0f''"

text \<open>
  The same target and dataset with the key column named \<open>ID\<close>.
\<close>

definition example_target_ID :: "int table" where
  "example_target_ID =
     \<lparr>tcolumns = [''ID'', ''x''], tkey = Some ''ID'', tholds = (\<lambda>c v. True),
      trows = [[''ID'' \<mapsto> 1, ''x'' \<mapsto> 10]]\<rparr>"

definition example_frame_ID :: "int frame" where
  "example_frame_ID =
     \<lparr>columns = [''ID'', ''x''],
      rows = [[''ID'' \<mapsto> Val 1, ''x'' \<mapsto> Val 20], [''ID'' \<mapsto> Val 2, ''x'' \<mapsto> Val 30]]\<rparr>"

text \<open>
  A server whose reserved key words include \<open>user\<close> and \<open>order\<close>, and a pandas that
  gives every column of a table it creates a type that holds every value.
\<close>

definition example_reserved :: "string \<Rightarrow> bool" where
  "example_reserved n \<longleftrightarrow> n \<in> set [''all'', ''select'', ''table'', ''user'', ''order'', ''group'']"

definition example_dtypes :: "int frame \<Rightarrow> string \<Rightarrow> int \<Rightarrow> bool" where
  "example_dtypes df c v \<longleftrightarrow> True"

section \<open>Loading and saving tables (\<open>DataStorageHandler\<close>)\<close>

text \<open>
  A DataFrame with its index: the name of the index (\<open>None\<close> when it has none), the
  index values, and the columns and rows. A table file holds a header and rows,
  the same data as a frame (\<open>to_csv(header=True, index=False)\<close> and
  \<open>read_csv(header=0, index_col=None)\<close>); the encoding of cells as text is not modelled.
  The storage is the database and the files, by path.
\<close>

record 'v dataframe =
  index_name :: "string option"
  index :: "'v cell list"
  body :: "'v frame"

record 'v storage =
  database :: "'v database"
  files :: "string \<rightharpoonup> 'v frame"

subsection \<open>\<open>_check_data_system\<close>\<close>

text \<open>
  \<^verbatim>\<open>
  if data_system not in candidates:
      raise ValueError(f'data_system {data_system} must be one of the followings: ...')
  \<close>
\<close>

definition check_data_system :: "string \<Rightarrow> string list \<Rightarrow> error + unit" where
  "check_data_system data_system candidates =
     (if data_system \<notin> set candidates then Inl ValueError else Inr ())"

subsection \<open>pandas operations on frames\<close>

text \<open>
  \<open>df.reset_index()\<close>: the index becomes the first column, under the name of the index,
  or \<open>index\<close> (\<open>level_0\<close> when \<open>index\<close> is taken) for an index without a name; a name
  that is a column already is refused.
\<close>

definition reset_index :: "'v dataframe \<Rightarrow> error + 'v frame" where
  "reset_index df =
     (let name = (case index_name df of
                    Some n \<Rightarrow> n
                  | None \<Rightarrow> if ''index'' \<in> set (columns (body df)) then ''level_0'' else ''index'')
      in if name \<in> set (columns (body df)) then Inl ValueError
         else Inr \<lparr>columns = name # columns (body df),
                   rows = map (\<lambda>(i, r). r(name \<mapsto> i)) (zip (index df) (rows (body df)))\<rparr>)"

text \<open>
  \<open>df.set_index(df.columns[0])\<close>: \<open>df.columns[0]\<close> raises \<open>IndexError\<close> on a frame
  without columns.
\<close>

definition set_index_first :: "'v frame \<Rightarrow> error + 'v dataframe" where
  "set_index_first df =
     (case columns df of
        [] \<Rightarrow> Inl IndexError
      | c # cs \<Rightarrow>
          Inr \<lparr>index_name = Some c,
               index = map (\<lambda>r. case r c of Some v \<Rightarrow> v | None \<Rightarrow> NaN) (rows df),
               body = \<lparr>columns = cs, rows = map (\<lambda>r. r(c := None)) (rows df)\<rparr>\<rparr>)"

text \<open>
  \<open>df.drop(list(set(df.columns) - set(declared)), axis=1)\<close>: the columns that are
  declared, in their order.
\<close>

definition drop_undeclared :: "string list \<Rightarrow> 'v frame \<Rightarrow> 'v frame" where
  "drop_undeclared declared df =
     \<lparr>columns = filter (\<lambda>c. c \<in> set declared) (columns df),
      rows = map (\<lambda>r. r |` set declared) (rows df)\<rparr>"

text \<open>
  \<open>df.astype(data_types)\<close> with a dict: pandas raises \<open>KeyError\<close> when a key of the
  dict is not a column of the frame; otherwise every column named in the dict is cast.
  The cast of one cell to a dtype is a parameter, \<open>cast\<close>; it can raise (a text that
  is no number, a missing value cast to a numpy integer).
\<close>

fun cast_cells ::
  "(string \<Rightarrow> 'v cell \<Rightarrow> error + 'v cell) \<Rightarrow> (string \<times> string) list
     \<Rightarrow> (string \<rightharpoonup> 'v cell) \<Rightarrow> error + (string \<rightharpoonup> 'v cell)" where
  "cast_cells cast [] r = Inr r"
| "cast_cells cast ((c, ty) # tys) r =
     (case r c of
        None \<Rightarrow> cast_cells cast tys r
      | Some v \<Rightarrow>
          (case cast ty v of
             Inl e \<Rightarrow> Inl e
           | Inr v' \<Rightarrow> cast_cells cast tys (r(c \<mapsto> v'))))"

fun cast_rows ::
  "(string \<Rightarrow> 'v cell \<Rightarrow> error + 'v cell) \<Rightarrow> (string \<times> string) list
     \<Rightarrow> (string \<rightharpoonup> 'v cell) list \<Rightarrow> error + (string \<rightharpoonup> 'v cell) list" where
  "cast_rows cast tys [] = Inr []"
| "cast_rows cast tys (r # rs) =
     (case cast_cells cast tys r of
        Inl e \<Rightarrow> Inl e
      | Inr r' \<Rightarrow> (case cast_rows cast tys rs of Inl e \<Rightarrow> Inl e | Inr rs' \<Rightarrow> Inr (r' # rs')))"

definition astype ::
  "(string \<Rightarrow> 'v cell \<Rightarrow> error + 'v cell) \<Rightarrow> (string \<times> string) list \<Rightarrow> 'v frame
     \<Rightarrow> error + 'v frame" where
  "astype cast data_types df =
     (if \<not> set (map fst data_types) \<subseteq> set (columns df) then Inl KeyError
      else then_do (cast_rows cast data_types (rows df)) (\<lambda>rs. Inr (df\<lparr>rows := rs\<rparr>)))"

text \<open>
  \<open>.fillna(pd.NA)\<close>: a missing value becomes \<open>pd.NA\<close> in a column whose dtype can
  hold it (\<open>holds_na\<close>, a parameter: the nullable and object dtypes can, for a numpy
  float column pandas stores \<open>nan\<close> again).
\<close>

definition fillna_NA ::
  "(string \<Rightarrow> bool) \<Rightarrow> (string \<times> string) list \<Rightarrow> 'v frame \<Rightarrow> 'v frame" where
  "fillna_NA holds_na data_types df =
     df\<lparr>rows := map (\<lambda>r c. case r c of
                              Some NaN \<Rightarrow>
                                (case map_of data_types c of
                                   Some ty \<Rightarrow> if holds_na ty then Some NA else Some NaN
                                 | None \<Rightarrow> Some NA)
                            | v \<Rightarrow> v) (rows df)\<rparr>"

text \<open>
  \<open>Path(table_name).stem\<close>: the last component of the path without its last suffix.
  The components of a path are the pieces between slashes; \<open>pathlib\<close> drops the empty
  ones (a doubled or trailing slash) and the ones that are a single dot. The suffix
  starts at the last dot of the name, unless that dot is the first or the last
  character of the name.
\<close>

fun split_slash :: "string \<Rightarrow> string list" where
  "split_slash [] = [[]]"
| "split_slash (ch # p) =
     (if ch = CHR ''/'' then [] # split_slash p
      else (case split_slash p of q # qs \<Rightarrow> (ch # q) # qs | [] \<Rightarrow> [[ch]]))"

definition path_name :: "string \<Rightarrow> string" where
  "path_name p =
     (case filter (\<lambda>q. q \<noteq> [] \<and> q \<noteq> ''.'') (split_slash p) of
        [] \<Rightarrow> []
      | q # qs \<Rightarrow> last (q # qs))"

definition stem :: "string \<Rightarrow> string" where
  "stem p =
     (let name = path_name p;
          suffix = takeWhile (\<lambda>ch. ch \<noteq> CHR ''.'') (rev name);
          i = length name - length suffix - 1
      in if CHR ''.'' \<in> set name \<and> 0 < i \<and> suffix \<noteq> [] then take i name else name)"

subsection \<open>The loaders and writers of the two table backends\<close>

text \<open>
  \<open>_load_postgres_data\<close>: \<open>SELECT * FROM "table"\<close>; the error for a table that does
  not exist is caught and the result is \<open>None\<close>. \<open>NULL\<close> is read as a missing value.
  \<open>_load_table_data_from_file\<close>: \<open>None\<close> when the file does not exist.
\<close>

definition load_postgres_data :: "'v database \<Rightarrow> string \<Rightarrow> 'v frame option" where
  "load_postgres_data db table_name =
     (case db table_name of
        None \<Rightarrow> None
      | Some T \<Rightarrow>
          Some \<lparr>columns = tcolumns T,
                rows = map (\<lambda>r c. if c \<in> set (tcolumns T)
                                   then (case r c of Some v \<Rightarrow> Some (Val v) | None \<Rightarrow> Some NaN)
                                   else None) (trows T)\<rparr>)"

definition load_table_data_from_file :: "(string \<rightharpoonup> 'v frame) \<Rightarrow> string \<Rightarrow> 'v frame option" where
  "load_table_data_from_file fs path = fs path"

text \<open>
  \<open>_save_table_data_to_file\<close>:
  \<^verbatim>\<open>
  if mode not in ('replace', ):
      ValueError(f'Invalid mode: {mode}')
  path.parent.mkdir(exist_ok=True, parents=True)
  df.to_csv(str(path), header=True, index=False, mode='w')
  \<close>
  As in \<open>_save_postgres_data\<close> the \<open>ValueError\<close> is built and dropped.
\<close>

definition save_table_data_to_file ::
  "(string \<rightharpoonup> 'v frame) \<Rightarrow> string \<Rightarrow> 'v frame \<Rightarrow> string option \<Rightarrow> string
     \<Rightarrow> error + (string \<rightharpoonup> 'v frame)" where
  "save_table_data_to_file fs path df unused mode =
     (let unraised = (if mode \<notin> set [''replace''] then Some ValueError else None)
      in Inr (fs(path \<mapsto> df)))"

subsection \<open>\<open>_load_table_data\<close> and \<open>_save_table_data\<close>\<close>

text \<open>
  \<^verbatim>\<open>
  self._check_data_system(data_system, ('postgres', 'file'))
  df = _load_table_data[data_system](table_name)
  if df is None:
      return df
  table_name = Path(table_name).stem
  if table_name in self.data_structure_cfg:
      drop_columns = list(set(df.columns) - set(self.data_structure_cfg[table_name].keys()))
      df = df.drop(drop_columns, axis=1)
      df = df.astype(self.data_structure_cfg[table_name]).fillna(pd.NA)
  df = df.set_index(df.columns[0])
  return df
  \<close>
  The schema declaration \<open>data_structure_cfg\<close> (a YAML file of the package) maps a table
  name to its columns and their dtypes; it is a parameter, \<open>cfg\<close>.
\<close>

definition load_table_data ::
  "(string \<rightharpoonup> (string \<times> string) list) \<Rightarrow> (string \<Rightarrow> 'v cell \<Rightarrow> error + 'v cell)
     \<Rightarrow> (string \<Rightarrow> bool) \<Rightarrow> 'v storage \<Rightarrow> string \<Rightarrow> string
     \<Rightarrow> error + 'v dataframe option" where
  "load_table_data cfg cast holds_na st table_name data_system =
     then_do (check_data_system data_system [''postgres'', ''file'']) (\<lambda>_.
       case (if data_system = ''postgres'' then load_postgres_data (database st) table_name
             else load_table_data_from_file (files st) table_name) of
         None \<Rightarrow> Inr None
       | Some df \<Rightarrow>
           then_do
             (case cfg (stem table_name) of
                None \<Rightarrow> Inr df
              | Some declared \<Rightarrow>
                  then_do (astype cast declared (drop_undeclared (map fst declared) df))
                    (\<lambda>df'. Inr (fillna_NA holds_na declared df')))
             (\<lambda>df'. then_do (set_index_first df') (\<lambda>d. Inr (Some d))))"

text \<open>
  \<^verbatim>\<open>
  self._check_data_system(data_system, ('postgres', 'file'))
  if df is None or not len(df):
      return
  index_name = df.index.name
  df = df.reset_index()
  _table_name = Path(table_name).stem
  if _table_name in self.data_structure_cfg:
      drop_columns = list(set(df.columns) - set(self.data_structure_cfg[_table_name].keys()))
      df = df.drop(drop_columns, axis=1)
      data_types = {k: v for k, v in self.data_structure_cfg[_table_name].items()
                    if k in df.columns}
      df = df.astype(data_types).fillna(pd.NA)
  _save_table_data[data_system](table_name, df, index_name, mode)
  \<close>
\<close>

definition save_table_data ::
  "(string \<rightharpoonup> (string \<times> string) list) \<Rightarrow> (string \<Rightarrow> 'v cell \<Rightarrow> error + 'v cell)
     \<Rightarrow> (string \<Rightarrow> bool) \<Rightarrow> (string \<Rightarrow> bool) \<Rightarrow> ('v frame \<Rightarrow> string \<Rightarrow> 'v \<Rightarrow> bool)
     \<Rightarrow> ('v frame \<Rightarrow> string) \<Rightarrow> 'v storage \<Rightarrow> string
     \<Rightarrow> 'v dataframe option \<Rightarrow> string \<Rightarrow> string \<Rightarrow> error + 'v storage" where
  "save_table_data cfg cast holds_na reserved dtypes md5 st table_name df data_system mode =
     then_do (check_data_system data_system [''postgres'', ''file'']) (\<lambda>_.
       case df of
         None \<Rightarrow> Inr st
       | Some d \<Rightarrow>
           if length (index d) = 0 then Inr st
           else
             then_do (reset_index d) (\<lambda>fr.
             then_do
               (case cfg (stem table_name) of
                  None \<Rightarrow> Inr fr
                | Some declared \<Rightarrow>
                    (let fr' = drop_undeclared (map fst declared) fr;
                         data_types = filter (\<lambda>(k, v). k \<in> set (columns fr')) declared
                     in then_do (astype cast data_types fr')
                          (\<lambda>fr''. Inr (fillna_NA holds_na data_types fr''))))
               (\<lambda>fr'.
                  if data_system = ''postgres'' then
                    then_do (save_postgres_data reserved dtypes md5 (database st) table_name fr'
                               (index_name d) mode)
                      (\<lambda>db'. Inr (st\<lparr>database := db'\<rparr>))
                  else
                    then_do (save_table_data_to_file (files st) table_name fr' (index_name d) mode)
                      (\<lambda>fs'. Inr (st\<lparr>files := fs'\<rparr>)))))"

subsection \<open>A small schema declaration to run the loaders on\<close>

text \<open>
  One declared table, \<open>sensors\<close>, with an integer key \<open>id\<close> and a float column \<open>x\<close>;
  a cast that accepts every cell; dtypes that hold \<open>pd.NA\<close>. The file of the table
  has the column \<open>id\<close> only.
\<close>

definition example_cfg :: "string \<rightharpoonup> (string \<times> string) list" where
  "example_cfg = [''sensors'' \<mapsto> [(''id'', ''Int64''), (''x'', ''Float64'')]]"

definition example_cast :: "string \<Rightarrow> int cell \<Rightarrow> error + int cell" where
  "example_cast ty v = Inr v"

definition example_holds_na :: "string \<Rightarrow> bool" where
  "example_holds_na ty = True"

definition example_storage :: "int storage" where
  "example_storage =
     \<lparr>database = Map.empty,
      files = [''d/sensors.csv'' \<mapsto> \<lparr>columns = [''id''], rows = [[''id'' \<mapsto> Val 1]]\<rparr>]\<rparr>"

definition example_dataframe :: "int dataframe" where
  "example_dataframe =
     \<lparr>index_name = Some ''id'', index = [Val 1], body = \<lparr>columns = [], rows = [Map.empty]\<rparr>\<rparr>"

section \<open>Time-indexed data\<close>

text \<open>
  The values of a pandas index or series that holds times: integers (a \<open>RangeIndex\<close>,
  epoch nanoseconds), or timestamps with the timezone of the whole object (\<open>None\<close>:
  timezone-naive). A timestamp is its count of nanoseconds: since the epoch in UTC when
  the object has a timezone, on the wall clock when it has none. Text is modelled by
  what it parses to. An object is an \<open>Index\<close> or a \<open>Series\<close> of such values.

  The counts are those of the 64-bit nanosecond clock of pandas, integers strictly
  between \<open>-2^63\<close> and \<open>2^63\<close>. The model has no missing time: \<open>NaT\<close>, which is
  what pandas reads \<open>-2^63\<close> as, and the integers beyond the clock, for which
  \<open>pd.to_datetime\<close> raises \<open>OutOfBoundsDatetime\<close>, are not values of it.
\<close>

datatype pd_values = Ints "int list" | Datetimes "string option" "int list"

datatype pd_obj = Index pd_values | Series pd_values

fun stamps :: "pd_values \<Rightarrow> int list" where
  "stamps (Ints xs) = xs"
| "stamps (Datetimes z xs) = xs"

fun tz :: "pd_values \<Rightarrow> string option" where
  "tz (Ints xs) = None"
| "tz (Datetimes z xs) = z"

fun values_of :: "pd_obj \<Rightarrow> pd_values" where
  "values_of (Index v) = v"
| "values_of (Series v) = v"

subsection \<open>\<open>_convert_datetime\<close>\<close>

text \<open>
  \<^verbatim>\<open>
  s = pd.to_datetime(s, unit='ns')
  if hasattr(s, 'tz') and s.tz is not None:
      return s.tz.tz_convert(None)
  elif hasattr(s, 'dt') and s.dt.tz is not None:
      return s.dt.tz_convert(None)
  return s
  \<close>
  \<open>pd.to_datetime(s, unit='ns')\<close> reads integers as nanoseconds since the epoch,
  timezone-naive, and keeps timestamps as they are. A \<open>DatetimeIndex\<close> has the
  attribute \<open>tz\<close> and no \<open>dt\<close>; a \<open>Series\<close> of timestamps has \<open>dt\<close> and no \<open>tz\<close>.
  \<open>s.tz\<close> is the timezone object (a \<open>tzinfo\<close>), which has no method \<open>tz_convert\<close>:
  the first branch raises \<open>AttributeError\<close>. \<open>s.dt.tz_convert(None)\<close> converts to UTC
  and removes the timezone.
\<close>

fun to_datetime :: "pd_obj \<Rightarrow> pd_obj" where
  "to_datetime (Index (Ints xs)) = Index (Datetimes None xs)"
| "to_datetime (Series (Ints xs)) = Series (Datetimes None xs)"
| "to_datetime s = s"

fun has_tz_attr :: "pd_obj \<Rightarrow> bool" where
  "has_tz_attr (Index v) = True"
| "has_tz_attr (Series v) = False"

fun has_dt_attr :: "pd_obj \<Rightarrow> bool" where
  "has_dt_attr (Index v) = False"
| "has_dt_attr (Series v) = True"

definition convert_datetime :: "pd_obj \<Rightarrow> error + pd_obj" where
  "convert_datetime s0 =
     (let s = to_datetime s0 in
      if has_tz_attr s \<and> tz (values_of s) \<noteq> None then Inl AttributeError
      else if has_dt_attr s \<and> tz (values_of s) \<noteq> None
      then Inr (Series (Datetimes None (stamps (values_of s))))
      else Inr s)"

subsection \<open>Time-indexed frames\<close>

text \<open>
  A time-indexed DataFrame: the name of its index, the index, the column names, and one
  list of cells per entry of the index, aligned with the columns.
\<close>

record 'v tsframe =
  ts_index_name :: "string option"
  ts_index :: pd_values
  ts_columns :: "string list"
  ts_rows :: "'v list list"

subsection \<open>Time-series files: \<open>_load_time_series_data_from_file\<close>\<close>

text \<open>
  A time-series file as \<open>to_csv(index=True)\<close> writes it: line 0 is the header (the name
  of the index, then the column names), line \<open>i + 1\<close> is the \<open>i\<close>-th sample, its time
  first. The text of the time column is modelled by what it parses to: one timestamp
  per line and the UTC offset the texts carry (\<open>None\<close>: none); every line is one record
  (no blank lines, no line breaks inside a field). An empty column parses to a
  timezone-naive object.
\<close>

record 'v ts_file =
  time_header :: string
  time_offset :: "string option"
  data_header :: "string list"
  samples :: "(int \<times> 'v list) list"

definition parsed_times :: "string option \<Rightarrow> int list \<Rightarrow> pd_values" where
  "parsed_times offset ts = Datetimes (if ts = [] then None else offset) ts"

text \<open>
  \<open>(np.where(cond)[0] + 1).tolist()\<close>: the line numbers of the samples that satisfy
  the condition.
\<close>

definition where_plus_1 :: "(int \<Rightarrow> bool) \<Rightarrow> int list \<Rightarrow> nat list" where
  "where_plus_1 cond ts = map (\<lambda>i. i + 1) (filter (\<lambda>i. cond (ts ! i)) [0..<length ts])"

text \<open>
  \<open>pd.read_csv(path, header=0, index_col=0, skiprows=skiprows)\<close>: the lines whose
  number is in \<open>skiprows\<close> are not read. Every number the loader puts in \<open>skiprows\<close> is
  1 or more, so the header line is always read.
\<close>

definition read_csv_skiprows :: "'v ts_file \<Rightarrow> nat list \<Rightarrow> (int \<times> 'v list) list" where
  "read_csv_skiprows f skiprows =
     map snd (filter (\<lambda>(n, l). n \<notin> set skiprows) (zip [1..<Suc (length (samples f))] (samples f)))"

text \<open>
  \<^verbatim>\<open>
  if not path.exists():
      return None
  if first_datetime is not None or last_datetime is not None:
      _datetime = self._convert_datetime(pd.read_csv(path, usecols=[0])['time'])
      skiprows = []
      if first_datetime is not None:
          skiprows.extend((np.where(_datetime < first_datetime)[0] + 1).tolist())
      if last_datetime is not None:
          skiprows.extend((np.where(last_datetime <= _datetime)[0] + 1).tolist())
  else:
      skiprows = None
  df = pd.read_csv(str(path), header=0, index_col=0, skiprows=skiprows)
  df.index = self._convert_datetime(df.index)
  return df
  \<close>
  The bounds are timezone-naive datetimes, as nanoseconds. \<open>['time']\<close> raises
  \<open>KeyError\<close> when the first column of the file has another name.
\<close>

definition load_time_series_data_from_file ::
  "(string \<rightharpoonup> 'v ts_file) \<Rightarrow> string \<Rightarrow> int option \<Rightarrow> int option
     \<Rightarrow> error + 'v tsframe option" where
  "load_time_series_data_from_file fs path first_datetime last_datetime =
     (case fs path of
        None \<Rightarrow> Inr None
      | Some f \<Rightarrow>
          then_do
            (if first_datetime \<noteq> None \<or> last_datetime \<noteq> None then
               if time_header f \<noteq> ''time'' then Inl KeyError
               else
                 then_do
                   (convert_datetime
                      (Series (parsed_times (time_offset f) (map fst (samples f)))))
                   (\<lambda>datetime.
                      Inr ((case first_datetime of
                              None \<Rightarrow> []
                            | Some a \<Rightarrow> where_plus_1 (\<lambda>t. t < a) (stamps (values_of datetime)))
                           @ (case last_datetime of
                                None \<Rightarrow> []
                              | Some b \<Rightarrow>
                                  where_plus_1 (\<lambda>t. b \<le> t) (stamps (values_of datetime)))))
             else Inr [])
            (\<lambda>skiprows.
               let kept = read_csv_skiprows f skiprows in
               then_do (convert_datetime (Index (parsed_times (time_offset f) (map fst kept))))
                 (\<lambda>idx. Inr (Some \<lparr>ts_index_name = Some (time_header f), ts_index = values_of idx,
                                    ts_columns = data_header f, ts_rows = map snd kept\<rparr>))))"

text \<open>
  Loading everything and filtering afterwards: the rows of a loaded frame whose time
  \<open>t\<close> satisfies \<open>a \<le> t < b\<close>, an absent bound not restricting.
\<close>

definition in_range :: "int option \<Rightarrow> int option \<Rightarrow> int \<Rightarrow> bool" where
  "in_range a b t \<longleftrightarrow>
     (case a of None \<Rightarrow> True | Some x \<Rightarrow> x \<le> t) \<and> (case b of None \<Rightarrow> True | Some y \<Rightarrow> t < y)"

definition filter_range :: "int option \<Rightarrow> int option \<Rightarrow> 'v tsframe \<Rightarrow> 'v tsframe" where
  "filter_range a b df =
     (let kept = filter (\<lambda>(t, r). in_range a b t) (zip (stamps (ts_index df)) (ts_rows df))
      in df\<lparr>ts_index := Datetimes (tz (ts_index df)) (map fst kept), ts_rows := map snd kept\<rparr>)"

subsection \<open>Two small time-series files\<close>

text \<open>
  Three samples at the times 1, 2 and 3, one field column; the index column is named
  \<open>time\<close> in the first file and \<open>timestamp\<close> in the second.
\<close>

definition example_ts_file :: "int ts_file" where
  "example_ts_file =
     \<lparr>time_header = ''time'', time_offset = None, data_header = [''0''],
      samples = [(1, [10]), (2, [20]), (3, [30])]\<rparr>"

definition example_ts_file_renamed :: "int ts_file" where
  "example_ts_file_renamed = example_ts_file\<lparr>time_header := ''timestamp''\<rparr>"

section \<open>The streaming writer: \<open>_save_time_series_data_streaming\<close>\<close>

text \<open>
  \<^verbatim>\<open>
  path.parent.mkdir(parents=True, exist_ok=True)
  df.index = self._convert_datetime(df.index)
  with path.open('wb') as f:
      pickle.dump(df, f)
  \<close>
  \<open>df\<close> is a reference to the caller's DataFrame, and the assignment to \<open>df.index\<close>
  writes into that object. The objects live in a heap, by address; the writer gets the
  address. A snapshot file holds the pickled frame. When \<open>_convert_datetime\<close> raises,
  nothing has been assigned and nothing is written.
\<close>

type_synonym 'v heap = "nat \<Rightarrow> 'v tsframe"

definition save_time_series_data_streaming ::
  "'v heap \<Rightarrow> (string \<rightharpoonup> 'v tsframe) \<Rightarrow> string \<Rightarrow> nat
     \<Rightarrow> error + ('v heap \<times> (string \<rightharpoonup> 'v tsframe))" where
  "save_time_series_data_streaming heap snapshots path df =
     then_do (convert_datetime (Index (ts_index (heap df))))
       (\<lambda>idx. let heap' = heap(df := (heap df)\<lparr>ts_index := values_of idx\<rparr>)
              in Inr (heap', snapshots(path \<mapsto> heap' df)))"

text \<open>
  Two frames to run the writer on: three samples under a \<open>RangeIndex\<close> (the kind of
  frame the package's streaming test saves), and the same samples under a
  \<open>DatetimeIndex\<close> in UTC.
\<close>

definition example_range_frame :: "int tsframe" where
  "example_range_frame =
     \<lparr>ts_index_name = None, ts_index = Ints [0, 1, 2], ts_columns = [''0''],
      ts_rows = [[5], [6], [7]]\<rparr>"

definition example_utc_frame :: "int tsframe" where
  "example_utc_frame =
     \<lparr>ts_index_name = Some ''time'', ts_index = Datetimes (Some ''UTC'') [0, 1, 2],
      ts_columns = [''0''], ts_rows = [[5], [6], [7]]\<rparr>"

section \<open>Tags and fields (\<open>DataManager\<close>)\<close>

text \<open>
  \<^verbatim>\<open>
  TAG_KEYS = ('batch_id', 'service_name', 'batch_datetime')
  tag_idx = df.columns.str.match('|'.join(TimeSeriesData.TAG_KEYS), na=False)
  fields[data_name] = df.loc[:, ~tag_idx]
  tags[data_name] = df.loc[:, tag_idx]
  \<close>
  \<open>str.match\<close> matches the pattern at the start of the name: a column is a tag when
  its name begins with one of the keys (the keys contain no character that is special
  in a pattern).
\<close>

definition TAG_KEYS :: "string list" where
  "TAG_KEYS = [''batch_id'', ''service_name'', ''batch_datetime'']"

definition starts_with :: "string \<Rightarrow> string \<Rightarrow> bool" where
  "starts_with k c \<longleftrightarrow> take (length k) c = k"

definition str_match :: "string list \<Rightarrow> string \<Rightarrow> bool" where
  "str_match keys c \<longleftrightarrow> list_ex (\<lambda>k. starts_with k c) keys"

definition tag_idx :: "'v tsframe \<Rightarrow> bool list" where
  "tag_idx df = map (str_match TAG_KEYS) (ts_columns df)"

text \<open>\<open>df.loc[:, mask]\<close>: the columns at the positions where the mask is true.\<close>

definition pick :: "bool list \<Rightarrow> 'a list \<Rightarrow> 'a list" where
  "pick keep xs = map fst (filter snd (zip xs keep))"

definition loc_columns :: "bool list \<Rightarrow> 'v tsframe \<Rightarrow> 'v tsframe" where
  "loc_columns keep df =
     df\<lparr>ts_columns := pick keep (ts_columns df), ts_rows := map (pick keep) (ts_rows df)\<rparr>"

definition import_fields :: "'v tsframe \<Rightarrow> 'v tsframe" where
  "import_fields df = loc_columns (map Not (tag_idx df)) df"

definition import_tags :: "'v tsframe \<Rightarrow> 'v tsframe" where
  "import_tags df = loc_columns (tag_idx df) df"

text \<open>
  \<^verbatim>\<open>
  df = time_series_data[data_name].fields.join(time_series_data[data_name].tags, how='left')
  \<close>
  The left join of pandas on the index: every row of the left frame, in order, once for
  each row of the right frame with the same index value, and once, with missing values
  for the right columns, when there is none. Columns that both frames have are refused.
\<close>

fun with_stamps :: "pd_values \<Rightarrow> int list \<Rightarrow> pd_values" where
  "with_stamps (Ints xs) ts = Ints ts"
| "with_stamps (Datetimes z xs) ts = Datetimes z ts"

definition join_rows ::
  "nat \<Rightarrow> (int \<times> 'v cell list) list \<Rightarrow> (int \<times> 'v cell list) list \<Rightarrow> (int \<times> 'v cell list) list" where
  "join_rows width L R =
     concat (map (\<lambda>(t, l). case filter (\<lambda>(t', r). t' = t) R of
                               [] \<Rightarrow> [(t, l @ replicate width NaN)]
                             | ms \<Rightarrow> map (\<lambda>(t', r). (t, l @ r)) ms) L)"

definition join_left :: "'v cell tsframe \<Rightarrow> 'v cell tsframe \<Rightarrow> error + 'v cell tsframe" where
  "join_left left right =
     (if set (ts_columns left) \<inter> set (ts_columns right) \<noteq> {} then Inl ValueError
      else
        (let joined = join_rows (length (ts_columns right))
                        (zip (stamps (ts_index left)) (ts_rows left))
                        (zip (stamps (ts_index right)) (ts_rows right))
         in Inr \<lparr>ts_index_name = ts_index_name left,
                 ts_index = with_stamps (ts_index left) (map fst joined),
                 ts_columns = ts_columns left @ ts_columns right,
                 ts_rows = map snd joined\<rparr>))"

definition export_joined :: "'v cell tsframe \<Rightarrow> error + 'v cell tsframe" where
  "export_joined df = join_left (import_fields df) (import_tags df)"

text \<open>
  A frame with one field column followed by one tag column, and the frame of the same
  samples with the tag column first.
\<close>

definition example_tagged_frame :: "int cell tsframe" where
  "example_tagged_frame =
     \<lparr>ts_index_name = Some ''time'', ts_index = Datetimes None [1, 2],
      ts_columns = [''0'', ''batch_id''], ts_rows = [[Val 10, Val 7], [Val 20, Val 8]]\<rparr>"

definition example_tag_first_frame :: "int cell tsframe" where
  "example_tag_first_frame =
     \<lparr>ts_index_name = Some ''time'', ts_index = Datetimes None [1, 2],
      ts_columns = [''batch_id'', ''0''], ts_rows = [[Val 7, Val 10], [Val 8, Val 20]]\<rparr>"

section \<open>Sequencing of calls that can raise\<close>

lemma then_do_Inr: "then_do (Inr x) f = f x"
  by (simp add: then_do_def)

lemma then_do_Inl: "then_do (Inl e) f = Inl e"
  by (simp add: then_do_def)

lemma then_do_assoc: "then_do (then_do r f) g = then_do r (\<lambda>x. then_do (f x) g)"
  by (cases r) (simp_all add: then_do_def)

section \<open>Properties of the export worker\<close>

lemma run_Nil [simp]: "run ok s [] = s"
  by (simp add: run_def)

lemma run_snoc [simp]: "run ok s (es @ [e]) = step ok (run ok s es) e"
  by (simp add: run_def)

lemma run_append: "run ok s (es @ fs) = run ok (run ok s es) fs"
  by (simp add: run_def)

lemma puts_append [simp]: "puts (es @ fs) = puts es @ puts fs"
  by (induction es rule: puts.induct) simp_all

lemma step_fifo:
  "exported (step ok s e) @ queue (step ok s e) = exported s @ queue s @ puts [e]"
  by (cases e) (auto split: run_pc.splits list.splits)

lemma run_fifo: "exported (run ok s es) @ queue (run ok s es) = exported s @ queue s @ puts es"
proof (induction es rule: rev_induct)
  case Nil
  show ?case by simp
next
  case (snoc e es)
  have "exported (run ok s (es @ [e])) @ queue (run ok s (es @ [e]))
        = exported (run ok s es) @ queue (run ok s es) @ puts [e]"
    by (simp only: run_snoc step_fifo)
  also have "\<dots> = exported s @ queue s @ puts es @ puts [e]"
    using snoc.IH by (metis append.assoc)
  finally show ?case by simp
qed

lemma run_Cons [simp]: "run ok s (e # es) = run ok (step ok s e) es"
  by (simp add: run_def)

lemma step_exported_at_most_one:
  "\<exists>ys. exported (step ok s e) = exported s @ ys \<and> length ys \<le> 1"
  by (cases e) (auto split: run_pc.splits list.splits)

lemma step_after_exit_exported:
  "pc s = Exited \<Longrightarrow> pc (step ok s e) = Exited \<and> exported (step ok s e) = exported s"
  by (cases e) auto

lemma step_enters_Exited:
  assumes "pc (step ok s e) = Exited" and "pc s \<noteq> Exited"
  shows "e = Run \<and> pc s = AtCheck \<and> exit s \<and> queue s = []"
  using assms by (cases e) (auto split: run_pc.splits list.splits if_splits)

lemma exited_only_at_check:
  assumes "pc (run ok init_exporter es) = Exited"
  shows "\<exists>es1 es2. es = es1 @ Run # es2
           \<and> pc (run ok init_exporter es1) = AtCheck
           \<and> exit (run ok init_exporter es1)
           \<and> queue (run ok init_exporter es1) = []
           \<and> exported (run ok init_exporter es) = puts es1"
  using assms
proof (induction es rule: rev_induct)
  case Nil
  then show ?case by (simp add: init_exporter_def)
next
  case (snoc e es)
  let ?s = "run ok init_exporter es"
  show ?case
  proof (cases "pc ?s = Exited")
    case True
    from snoc.IH [OF True] obtain es1 es2 where
      h: "es = es1 @ Run # es2" "pc (run ok init_exporter es1) = AtCheck"
         "exit (run ok init_exporter es1)" "queue (run ok init_exporter es1) = []"
         "exported ?s = puts es1"
      by blast
    have "exported (run ok init_exporter (es @ [e])) = puts es1"
      using step_after_exit_exported [OF True, of ok e] h(5) by simp
    moreover have "es @ [e] = es1 @ Run # (es2 @ [e])"
      using h(1) by simp
    ultimately show ?thesis
      using h(2,3,4) by blast
  next
    case False
    from snoc.prems have "pc (step ok ?s e) = Exited" by simp
    from step_enters_Exited [OF this False]
    have e: "e = Run" "pc ?s = AtCheck" "exit ?s" "queue ?s = []" by simp_all
    have "exported ?s @ queue ?s = puts es"
      using run_fifo [of ok init_exporter es] by (simp add: init_exporter_def)
    then have "exported ?s = puts es" using e(4) by simp
    then have "exported (run ok init_exporter (es @ [e])) = puts es"
      using e by simp
    moreover have "es @ [e] = es @ Run # []" using e(1) by simp
    ultimately show ?thesis using e(2,3,4) by blast
  qed
qed

lemma run_Exited_stays: "pc s = Exited \<Longrightarrow> run ok s (replicate n Run) = s"
  by (induction n) simp_all

lemma run_Died_stays:
  "pc s = Died \<Longrightarrow>
     pc (run ok s es) = Died \<and> exported (run ok s es) = exported s
     \<and> queue (run ok s es) = queue s @ puts es
     \<and> logged (run ok s es) = logged s"
proof (induction es rule: rev_induct)
  case Nil
  then show ?case by simp
next
  case (snoc e es)
  then show ?case by (cases e) simp_all
qed

lemma export_log_append:
  "export_log ok (xs @ ys) = export_log ok xs @ export_log ok ys"
  by (simp add: export_log_def)

lemma step_logged:
  assumes "logged s = L @ export_log ok (exported s) @ (if pc s = Exited then [LogExit] else [])"
  shows "logged (step ok s e)
         = L @ export_log ok (exported (step ok s e))
             @ (if pc (step ok s e) = Exited then [LogExit] else [])"
proof (cases e)
  case (Put x)
  then show ?thesis using assms by simp
next
  case SetExit
  then show ?thesis using assms by simp
next
  case Run
  show ?thesis
  proof (cases "pc s")
    case AtGet
    then show ?thesis using assms Run
      by (cases "queue s") (simp_all add: export_log_def)
  next
    case AtCheck
    then show ?thesis using assms Run by simp
  next
    case Exited
    then show ?thesis using assms Run by simp
  next
    case Died
    then show ?thesis using assms Run by simp
  qed
qed

lemma run_logged:
  "logged (run ok init_exporter es)
   = [LogRunning] @ export_log ok (exported (run ok init_exporter es))
       @ (if pc (run ok init_exporter es) = Exited then [LogExit] else [])"
proof (induction es rule: rev_induct)
  case Nil
  show ?case by (simp add: init_exporter_def export_log_def)
next
  case (snoc e es)
  show ?case
    using step_logged [of "run ok init_exporter es" "[LogRunning]" ok e] snoc.IH
    by (simp only: run_snoc)
qed

lemma step_died:
  assumes "pc s = Died \<longrightarrow> exported s \<noteq> [] \<and> \<not> ok (last (exported s))"
  shows "pc (step ok s e) = Died \<longrightarrow>
           exported (step ok s e) \<noteq> [] \<and> \<not> ok (last (exported (step ok s e)))"
proof (cases e)
  case (Put x)
  then show ?thesis using assms by simp
next
  case SetExit
  then show ?thesis using assms by simp
next
  case Run
  show ?thesis
  proof (cases "pc s")
    case AtGet
    then show ?thesis using Run by (cases "queue s") simp_all
  next
    case AtCheck
    then show ?thesis using Run by simp
  next
    case Exited
    then show ?thesis using Run by simp
  next
    case Died
    then show ?thesis using assms Run by simp
  qed
qed

lemma run_died:
  "pc (run ok init_exporter es) = Died \<longrightarrow>
     exported (run ok init_exporter es) \<noteq> []
     \<and> \<not> ok (last (exported (run ok init_exporter es)))"
proof (induction es rule: rev_induct)
  case Nil
  show ?case by (simp add: init_exporter_def)
next
  case (snoc e es)
  show ?case
    using step_died [of "run ok init_exporter es" ok e] snoc.IH
    by (simp only: run_snoc)
qed

lemma drain_from:
  assumes "exit s" and "\<forall>x\<in>set (queue s). ok x"
    and "pc s = AtGet \<or> pc s = AtCheck" and "steps_needed s \<le> n"
  shows "run ok s (replicate n Run)
         = s\<lparr>queue := [], exported := exported s @ queue s,
              logged := logged s @ export_log ok (queue s) @ [LogExit], pc := Exited\<rparr>"
  using assms
proof (induction n arbitrary: s)
  case 0
  then show ?case by (auto simp: steps_needed_def)
next
  case (Suc n)
  from Suc.prems(3) show ?case
  proof
    assume g: "pc s = AtGet"
    show ?thesis
    proof (cases "queue s")
      case Nil
      let ?t = "s\<lparr>pc := AtCheck\<rparr>"
      have st: "run_step ok s = ?t" using g Nil by simp
      have "steps_needed ?t \<le> n"
        using Suc.prems(4) g Nil by (simp add: steps_needed_def)
      then have "run ok ?t (replicate n Run)
                 = ?t\<lparr>queue := [], exported := exported ?t @ queue ?t,
                       logged := logged ?t @ export_log ok (queue ?t) @ [LogExit], pc := Exited\<rparr>"
        using Suc.prems(1) Nil by (intro Suc.IH) simp_all
      then show ?thesis using st Nil by simp
    next
      case (Cons x q)
      let ?t = "s\<lparr>queue := q, exported := exported s @ [x],
                  logged := logged s @ [LogExporting x, LogFinished x], pc := AtCheck\<rparr>"
      have x: "ok x" using Suc.prems(2) Cons by simp
      then have st: "run_step ok s = ?t" using g Cons by simp
      have "steps_needed ?t \<le> n"
        using Suc.prems(4) g Cons by (simp add: steps_needed_def)
      then have "run ok ?t (replicate n Run)
                 = ?t\<lparr>queue := [], exported := exported ?t @ queue ?t,
                       logged := logged ?t @ export_log ok (queue ?t) @ [LogExit], pc := Exited\<rparr>"
        using Suc.prems(1,2) Cons by (intro Suc.IH) simp_all
      then show ?thesis using st Cons x by (simp add: export_log_def)
    qed
  next
    assume c: "pc s = AtCheck"
    show ?thesis
    proof (cases "queue s")
      case Nil
      let ?t = "s\<lparr>logged := logged s @ [LogExit], pc := Exited\<rparr>"
      have st: "run_step ok s = ?t" using c Nil Suc.prems(1) by simp
      have "run ok ?t (replicate n Run) = ?t" by (rule run_Exited_stays) simp
      then show ?thesis using st Nil by (simp add: export_log_def)
    next
      case (Cons x q)
      let ?t = "s\<lparr>pc := AtGet\<rparr>"
      have st: "run_step ok s = ?t" using c Cons by simp
      have "steps_needed ?t \<le> n"
        using Suc.prems(4) c Cons by (simp add: steps_needed_def)
      then have "run ok ?t (replicate n Run)
                 = ?t\<lparr>queue := [], exported := exported ?t @ queue ?t,
                       logged := logged ?t @ export_log ok (queue ?t) @ [LogExit], pc := Exited\<rparr>"
        using Suc.prems(1,2) by (intro Suc.IH) simp_all
      then show ?thesis using st by simp
    qed
  qed
qed

lemma queue_subset_puts: "set (queue (run ok init_exporter es)) \<subseteq> set (puts es)"
proof -
  have "exported (run ok init_exporter es) @ queue (run ok init_exporter es) = puts es"
    using run_fifo [of ok init_exporter es] by (simp add: init_exporter_def)
  then have "set (puts es) = set (exported (run ok init_exporter es)) \<union> set (queue (run ok init_exporter es))"
    by (metis set_append)
  then show ?thesis by blast
qed

lemma exported_subset_puts: "set (exported (run ok init_exporter es)) \<subseteq> set (puts es)"
proof -
  have "exported (run ok init_exporter es) @ queue (run ok init_exporter es) = puts es"
    using run_fifo [of ok init_exporter es] by (simp add: init_exporter_def)
  then have "set (puts es) = set (exported (run ok init_exporter es)) \<union> set (queue (run ok init_exporter es))"
    by (metis set_append)
  then show ?thesis by blast
qed

lemma queue_length_puts: "length (queue (run ok init_exporter es)) \<le> length (puts es)"
proof -
  have "exported (run ok init_exporter es) @ queue (run ok init_exporter es) = puts es"
    using run_fifo [of ok init_exporter es] by (simp add: init_exporter_def)
  then have "length (puts es) = length (exported (run ok init_exporter es)) + length (queue (run ok init_exporter es))"
    by (metis length_append)
  then show ?thesis by simp
qed

lemma alive_when_exports_return:
  assumes "\<forall>x\<in>set (puts es). ok x"
  shows "pc (run ok init_exporter es) \<noteq> Died"
proof
  assume d: "pc (run ok init_exporter es) = Died"
  then have ne: "exported (run ok init_exporter es) \<noteq> []"
    and bad: "\<not> ok (last (exported (run ok init_exporter es)))"
    using run_died [of ok es] by simp_all
  have "last (exported (run ok init_exporter es)) \<in> set (puts es)"
    using ne exported_subset_puts [of ok es] last_in_set by blast
  then show False using assms bad by simp
qed

lemma running_before_stop:
  assumes "SetExit \<notin> set es"
  shows "\<not> exit (run ok init_exporter es) \<and> pc (run ok init_exporter es) \<noteq> Exited"
  using assms
proof (induction es rule: rev_induct)
  case Nil
  then show ?case by (simp add: init_exporter_def)
next
  case (snoc e es)
  let ?s = "run ok init_exporter es"
  have ih: "\<not> exit ?s" "pc ?s \<noteq> Exited"
    using snoc by simp_all
  show ?case
  proof (cases e)
    case (Put x)
    then show ?thesis using ih by simp
  next
    case SetExit
    then show ?thesis using snoc.prems(1) by simp
  next
    case Run
    then show ?thesis using ih
      by (cases "pc ?s"; cases "queue ?s") simp_all
  qed
qed

lemma drain_late:
  assumes "\<forall>x\<in>set (puts es). ok x" and "exit (run ok init_exporter es)"
    and "pc (run ok init_exporter es) \<noteq> Exited" and "2 * length (puts es) + 2 \<le> n"
  shows "run ok init_exporter (es @ replicate n Run)
         = \<lparr>queue = [], exit = True, pc = Exited, exported = puts es,
            logged = [LogRunning] @ export_log ok (puts es) @ [LogExit]\<rparr>"
proof -
  let ?s = "run ok init_exporter es"
  have r: "pc ?s = AtGet \<or> pc ?s = AtCheck"
    using alive_when_exports_return [OF assms(1)] assms(3) by (cases "pc ?s") simp_all
  have okq: "\<forall>x\<in>set (queue ?s). ok x"
    using queue_subset_puts [of ok es] assms(1) by auto
  have "steps_needed ?s \<le> 2 * length (queue ?s) + 2"
    using r by (auto simp: steps_needed_def)
  then have n: "steps_needed ?s \<le> n"
    using queue_length_puts [of ok es] assms(4) by simp
  have f: "exported ?s @ queue ?s = puts es"
    using run_fifo [of ok init_exporter es] by (simp add: init_exporter_def)
  have l: "logged ?s = [LogRunning] @ export_log ok (exported ?s)"
    using run_logged [of ok es] assms(3) by simp
  have "logged ?s @ export_log ok (queue ?s) @ [LogExit]
        = [LogRunning] @ export_log ok (exported ?s @ queue ?s) @ [LogExit]"
    by (simp only: l export_log_append append.assoc)
  then have l': "logged ?s @ export_log ok (queue ?s) @ [LogExit]
        = [LogRunning] @ export_log ok (puts es) @ [LogExit]"
    by (simp only: f)
  have "run ok init_exporter (es @ replicate n Run) = run ok ?s (replicate n Run)"
    by (simp add: run_append)
  also have "\<dots> = ?s\<lparr>queue := [], exported := exported ?s @ queue ?s,
                       logged := logged ?s @ export_log ok (queue ?s) @ [LogExit], pc := Exited\<rparr>"
    using assms(2) okq r n by (intro drain_from) simp_all
  finally show ?thesis using f l' assms(2) by simp
qed

lemma stop_after_any_run:
  assumes "SetExit \<notin> set es" and "\<forall>x\<in>set (puts es). ok x" and "2 * length (puts es) + 2 \<le> n"
  shows "run ok init_exporter (es @ SetExit # replicate n Run)
         = \<lparr>queue = [], exit = True, pc = Exited, exported = puts es,
            logged = [LogRunning] @ export_log ok (puts es) @ [LogExit]\<rparr>"
proof -
  let ?es = "es @ [SetExit]"
  have p: "puts ?es = puts es" by simp
  have h: "pc (run ok init_exporter ?es) \<noteq> Exited" "exit (run ok init_exporter ?es)"
    using running_before_stop [OF assms(1), of ok] by simp_all
  have a: "\<forall>x\<in>set (puts ?es). ok x" "2 * length (puts ?es) + 2 \<le> n"
    using assms(2,3) by (simp_all only: p)
  have "run ok init_exporter (?es @ replicate n Run)
        = \<lparr>queue = [], exit = True, pc = Exited, exported = puts ?es,
           logged = [LogRunning] @ export_log ok (puts ?es) @ [LogExit]\<rparr>"
    by (rule drain_late [OF a(1) h(2) h(1) a(2)])
  then show ?thesis by (simp only: p append.assoc append_Cons append_Nil)
qed

text \<open>
  C3 (worker drain and stop), as stated, fails when an export raises. Three items are
  put, then the stop is requested; the export of the second item raises. After any
  number of thread steps the third item is still in the queue, not forwarded, and the
  thread has ended without reaching its exit check: it has not logged \<open>Exit\<close>.
\<close>

theorem worker_drain_counterexample:
  "pc (run ((<) 0) init_exporter ([Put (1::nat), Put 0, Put 2, SetExit] @ replicate 8 Run)) = Died
   \<and> exported (run ((<) 0) init_exporter ([Put (1::nat), Put 0, Put 2, SetExit] @ replicate 8 Run))
       = [1, 0]
   \<and> queue (run ((<) 0) init_exporter ([Put (1::nat), Put 0, Put 2, SetExit] @ replicate 8 Run))
       = [2]
   \<and> logged (run ((<) 0) init_exporter ([Put (1::nat), Put 0, Put 2, SetExit] @ replicate 8 Run))
       = [LogRunning, LogExporting 1, LogFinished 1, LogExporting 0]"
  by (simp add: init_exporter_def eval_nat_numeral)

text \<open>
  C3 as amended. For every interleaving \<open>es\<close> of puts, the stop request and thread
  steps, and whatever the exports do:
  the items exported so far followed by the items still queued are exactly the items put
  so far, in the order of the puts (FIFO, nothing exported twice, nothing lost);
  one step exports at most one item;
  the thread is in its exited state only if some earlier step was the exit check, taken
  with \<open>exit\<close> set and the queue empty, and then everything put before that check,
  before or after the stop request, has been exported;
  the log of the thread is \<open>Running\<close>, then the entries of the exports made so far,
  then \<open>Exit\<close> if and only if the thread is in its exited state;
  and the thread is dead only if the last item it exported is one whose export raised.
  When no export raises: after any interleaving \<open>fs\<close> of puts and thread steps, a stop
  request followed by \<open>2 * N + 2\<close> thread steps or more, \<open>N\<close> the number of items
  put, ends in the exited state with exactly the items put exported, in the order of the
  puts, and the queue empty; and after any interleaving \<open>gs\<close> at whose end the stop
  is requested and the thread has not exited, \<open>2 * N + 2\<close> thread steps or more end in
  the exited state with every item put in \<open>gs\<close> exported, those put after the stop
  request included.
\<close>

theorem worker_drain_and_stop:
  "exported (run ok init_exporter es) @ queue (run ok init_exporter es) = puts es
   \<and> (\<exists>ys. exported (step ok s e) = exported s @ ys \<and> length ys \<le> 1)
   \<and> (pc (run ok init_exporter es) = Exited \<longrightarrow>
        (\<exists>es1 es2. es = es1 @ Run # es2
           \<and> pc (run ok init_exporter es1) = AtCheck
           \<and> exit (run ok init_exporter es1)
           \<and> queue (run ok init_exporter es1) = []
           \<and> exported (run ok init_exporter es) = puts es1))
   \<and> logged (run ok init_exporter es)
       = [LogRunning] @ export_log ok (exported (run ok init_exporter es))
           @ (if pc (run ok init_exporter es) = Exited then [LogExit] else [])
   \<and> (pc (run ok init_exporter hs) = Died \<longrightarrow>
        exported (run ok init_exporter hs) \<noteq> []
        \<and> \<not> ok (last (exported (run ok init_exporter hs))))
   \<and> (SetExit \<notin> set fs \<and> (\<forall>x\<in>set (puts fs). ok x) \<and> 2 * length (puts fs) + 2 \<le> n \<longrightarrow>
        run ok init_exporter (fs @ SetExit # replicate n Run)
        = \<lparr>queue = [], exit = True, pc = Exited, exported = puts fs,
           logged = [LogRunning] @ export_log ok (puts fs) @ [LogExit]\<rparr>)
   \<and> ((\<forall>x\<in>set (puts gs). ok x) \<and> exit (run ok init_exporter gs)
        \<and> pc (run ok init_exporter gs) \<noteq> Exited \<and> 2 * length (puts gs) + 2 \<le> m \<longrightarrow>
        run ok init_exporter (gs @ replicate m Run)
        = \<lparr>queue = [], exit = True, pc = Exited, exported = puts gs,
           logged = [LogRunning] @ export_log ok (puts gs) @ [LogExit]\<rparr>)"
proof -
  have "exported (run ok init_exporter es) @ queue (run ok init_exporter es) = puts es"
    using run_fifo [of ok init_exporter es] by (simp add: init_exporter_def)
  then show ?thesis
    using step_exported_at_most_one [of ok s e] exited_only_at_check [of ok es]
      stop_after_any_run [of fs ok n] run_logged [of ok es] run_died [of ok hs]
      drain_late [of gs ok m]
    by blast
qed

theorem worker_drain_and_stop_witness:
  "pc (run ((<) 0) init_exporter [Put (1::nat), SetExit, Run, Put 2, Run, Run, Run]) = Exited
   \<and> exported (run ((<) 0) init_exporter [Put (1::nat), SetExit, Run, Put 2, Run, Run, Run])
       = [1, 2]
   \<and> logged (run ((<) 0) init_exporter [Put (1::nat), SetExit, Run, Put 2, Run, Run, Run])
       = [LogRunning, LogExporting 1, LogFinished 1, LogExporting 2, LogFinished 2, LogExit]
   \<and> pc (run ((<) 0) init_exporter [Put (1::nat), Put 0, Run, Run, Run]) = Died
   \<and> exported (run ((<) 0) init_exporter [Put (1::nat), Put 0, Run, Run, Run]) = [1, 0]
   \<and> \<not> (0::nat) < 0
   \<and> SetExit \<notin> set [Put (1::nat), Run, Put 2]
   \<and> (0::nat) < 1 \<and> (0::nat) < 2 \<and> 2 * length (puts [Put (1::nat), Run, Put 2]) + 2 \<le> (6::nat)
   \<and> run ((<) 0) init_exporter ([Put (1::nat), Run, Put 2] @ SetExit # replicate 6 Run)
       = \<lparr>queue = [], exit = True, pc = Exited, exported = [1, 2],
          logged = [LogRunning, LogExporting 1, LogFinished 1, LogExporting 2, LogFinished 2,
                    LogExit]\<rparr>
   \<and> exit (run ((<) 0) init_exporter [Put (1::nat), SetExit, Run, Put 2])
   \<and> pc (run ((<) 0) init_exporter [Put (1::nat), SetExit, Run, Put 2]) = AtCheck
   \<and> 2 * length (puts [Put (1::nat), SetExit, Run, Put 2]) + 2 \<le> (6::nat)
   \<and> run ((<) 0) init_exporter ([Put (1::nat), SetExit, Run, Put 2] @ replicate 6 Run)
       = \<lparr>queue = [], exit = True, pc = Exited, exported = [1, 2],
          logged = [LogRunning, LogExporting 1, LogFinished 1, LogExporting 2, LogFinished 2,
                    LogExit]\<rparr>"
  using worker_drain_and_stop
    [of "(<) 0" "[Put (1::nat), SetExit, Run, Put 2, Run, Run, Run]" init_exporter Run
        "[Put (1::nat), Put 0, Run, Run, Run]"
        "[Put (1::nat), Run, Put 2]" 6 "[Put (1::nat), SetExit, Run, Put 2]" 6]
  by (simp add: init_exporter_def eval_nat_numeral export_log_def)

text \<open>
  C4 (worker fault isolation), as stated, fails: the loop catches \<open>queue.Empty\<close> and
  nothing else, so an export that raises leaves \<open>run\<close> and ends the thread. With two
  items queued and the export of the first one raising, the second item is still in the
  queue after any number of thread steps, the thread never reaches its exit check, and
  the one thing it has logged for the failing item is that it was about to export it.
\<close>

theorem worker_fault_isolation_counterexample:
  "pc (run ((<) 0) init_exporter [Put (0::nat), Put 1, SetExit, Run, Run, Run, Run, Run]) = Died
   \<and> exported (run ((<) 0) init_exporter [Put (0::nat), Put 1, SetExit, Run, Run, Run, Run, Run])
       = [0]
   \<and> queue (run ((<) 0) init_exporter [Put (0::nat), Put 1, SetExit, Run, Run, Run, Run, Run])
       = [1]
   \<and> logged (run ((<) 0) init_exporter [Put (0::nat), Put 1, SetExit, Run, Run, Run, Run, Run])
       = [LogRunning, LogExporting 0]"
  by (simp add: init_exporter_def)

text \<open>
  C4 as amended. An export that raises ends the drain loop: when the thread takes an
  item whose export raises, that export is the last one. Before the export the thread
  has logged that it exports the item; it logs nothing after it, neither the failure nor
  anything else. Whatever happens afterwards, the thread stays dead, exports nothing
  more, and the items behind the failing one, and every item put later, stay in the
  queue.
\<close>

theorem worker_failed_export_ends_loop:
  assumes "pc s = AtGet" and "queue s = x # q" and "\<not> ok x"
  shows "pc (run ok s (Run # es)) = Died
         \<and> exported (run ok s (Run # es)) = exported s @ [x]
         \<and> queue (run ok s (Run # es)) = q @ puts es
         \<and> logged (run ok s (Run # es)) = logged s @ [LogExporting x]"
proof -
  let ?t = "s\<lparr>queue := q, exported := exported s @ [x],
              logged := logged s @ [LogExporting x], pc := Died\<rparr>"
  have "run_step ok s = ?t" using assms by simp
  then have "run ok s (Run # es) = run ok ?t es" by simp
  moreover have "pc ?t = Died" by simp
  ultimately show ?thesis using run_Died_stays [of ?t ok es] by simp
qed

theorem worker_failed_export_ends_loop_witness:
  "pc \<lparr>queue = [0::nat, 1], exit = True, pc = AtGet, exported = [], logged = [LogRunning]\<rparr>
     = AtGet
   \<and> queue \<lparr>queue = [0::nat, 1], exit = True, pc = AtGet, exported = [], logged = [LogRunning]\<rparr>
     = 0 # [1]
   \<and> \<not> (0::nat) < 0
   \<and> pc (run ((<) 0)
            \<lparr>queue = [0::nat, 1], exit = True, pc = AtGet, exported = [], logged = [LogRunning]\<rparr>
            (Run # [Put 2, Run, Run])) = Died
   \<and> exported (run ((<) 0)
            \<lparr>queue = [0::nat, 1], exit = True, pc = AtGet, exported = [], logged = [LogRunning]\<rparr>
            (Run # [Put 2, Run, Run])) = [] @ [0]
   \<and> queue (run ((<) 0)
            \<lparr>queue = [0::nat, 1], exit = True, pc = AtGet, exported = [], logged = [LogRunning]\<rparr>
            (Run # [Put 2, Run, Run])) = [1] @ puts [Put 2, Run, Run]
   \<and> logged (run ((<) 0)
            \<lparr>queue = [0::nat, 1], exit = True, pc = AtGet, exported = [], logged = [LogRunning]\<rparr>
            (Run # [Put 2, Run, Run])) = [LogRunning] @ [LogExporting 0]"
  using worker_failed_export_ends_loop
    [of "\<lparr>queue = [0::nat, 1], exit = True, pc = AtGet, exported = [], logged = [LogRunning]\<rparr>"
        0 "[1]" "(<) 0" "[Put 2, Run, Run]"]
  by simp

section \<open>Properties of the sync save\<close>

lemma overwrite_Nil [simp]: "overwrite t s [] = t"
  by (simp add: overwrite_def)

lemma overwrite_twice: "overwrite (overwrite t s upd) s upd = overwrite t s upd"
  by (rule ext) (simp add: overwrite_def)

lemma overwrite_self: "overwrite s s upd = s"
  by (rule ext) (simp add: overwrite_def)

lemma insert_rows_no_key: "insert_rows None trs ss = Inr (trs @ ss)"
  by (induction ss arbitrary: trs) simp_all

lemma sql_row_restrict: "sql_row cols r |` set cols = sql_row cols r"
  by (rule ext) (simp add: sql_row_def restrict_map_def)

lemma rows_with_append: "rows_with idx k (xs @ ys) = rows_with idx k xs @ rows_with idx k ys"
  by (simp add: rows_with_def)

lemma rows_with_empty_iff: "rows_with idx k trs = [] \<longleftrightarrow> \<not> (\<exists>t\<in>set trs. t idx = Some k)"
  by (auto simp: rows_with_def filter_empty_conv)

lemma rows_with_update_same:
  assumes "s idx = Some k"
  shows "rows_with idx k (map (\<lambda>t. if t idx = Some k then overwrite t s U else t) trs)
         = map (\<lambda>t. overwrite t s U) (rows_with idx k trs)"
  using assms
  by (induction trs) (auto simp: rows_with_def overwrite_def)

lemma rows_with_update_other:
  assumes "s idx = Some k0" and "k \<noteq> k0"
  shows "rows_with idx k (map (\<lambda>t. if t idx = Some k0 then overwrite t s U else t) trs)
         = rows_with idx k trs"
  using assms
  by (induction trs) (auto simp: rows_with_def overwrite_def)

lemma upserted_Cons_same:
  "s idx = Some k \<Longrightarrow> upserted idx upd (s # ss) k old
     = (if old = [] then [s] else map (\<lambda>t. overwrite t s upd) old)"
  by (simp add: upserted_def)

lemma upserted_Cons_other:
  "s idx = Some k0 \<Longrightarrow> k \<noteq> k0 \<Longrightarrow> upserted idx upd (s # ss) k old = upserted idx upd ss k old"
  by (simp add: upserted_def)

lemma upserted_absent:
  assumes "\<forall>s\<in>set ss. s idx \<noteq> Some k"
  shows "upserted idx upd ss k old = old"
proof -
  have "find (\<lambda>s. s idx = Some k) ss = None"
    using assms by (simp add: find_None_iff)
  then show ?thesis by (simp add: upserted_def)
qed

lemma upsert_rows_char:
  assumes "distinct (map (\<lambda>s. s idx) ss)"
    and "\<forall>s\<in>set ss. \<exists>k. s idx = Some k \<and> k \<notin> set touched"
  shows "\<exists>trs'. upsert_rows idx upd touched trs ss = Inr trs' \<and>
           (\<forall>k. rows_with idx k trs' = upserted idx upd ss k (rows_with idx k trs))"
  using assms
proof (induction ss arbitrary: trs touched)
  case Nil
  then show ?case by (simp add: upserted_def)
next
  case (Cons s ss)
  from Cons.prems(2) obtain k0 where k0: "s idx = Some k0" "k0 \<notin> set touched" by auto
  have d: "distinct (map (\<lambda>s. s idx) ss)" using Cons.prems(1) by simp
  have nk: "\<forall>s'\<in>set ss. s' idx \<noteq> Some k0" using Cons.prems(1) k0(1) by (auto simp: image_iff)
  have t: "\<forall>s'\<in>set ss. \<exists>k. s' idx = Some k \<and> k \<notin> set (k0 # touched)"
    using Cons.prems(2) nk by auto
  have step: "\<exists>trs'. upsert_rows idx upd touched trs (s # ss) = Inr trs' \<and>
           (\<forall>k. rows_with idx k trs' = upserted idx upd (s # ss) k (rows_with idx k trs))"
    if run: "upsert_rows idx upd touched trs (s # ss) = upsert_rows idx upd (k0 # touched) trs1 ss"
      and same: "rows_with idx k0 trs1
                 = (if rows_with idx k0 trs = [] then [s]
                    else map (\<lambda>t. overwrite t s upd) (rows_with idx k0 trs))"
      and other: "\<And>k. k \<noteq> k0 \<Longrightarrow> rows_with idx k trs1 = rows_with idx k trs"
    for trs1
  proof -
    from Cons.IH [OF d t, of trs1] obtain trs' where
      r: "upsert_rows idx upd (k0 # touched) trs1 ss = Inr trs'"
      and c: "\<And>k. rows_with idx k trs' = upserted idx upd ss k (rows_with idx k trs1)"
      by blast
    have "rows_with idx k trs' = upserted idx upd (s # ss) k (rows_with idx k trs)" for k
    proof (cases "k = k0")
      case True
      have "rows_with idx k0 trs' = rows_with idx k0 trs1"
        using c [of k0] upserted_absent [of ss idx k0 upd] nk by simp
      then show ?thesis
        using True same upserted_Cons_same [of s idx k0 upd ss] k0(1) by simp
    next
      case False
      then show ?thesis
        using c [of k] other [OF False] upserted_Cons_other [of s idx k0 k upd ss] k0(1) by simp
    qed
    then show ?thesis using r run by simp
  qed
  show ?case
  proof (cases "rows_with idx k0 trs = []")
    case True
    then have nc: "\<not> (\<exists>t\<in>set trs. t idx = Some k0)" by (simp add: rows_with_empty_iff)
    show ?thesis
    proof (rule step [of "trs @ [s]"])
      show "upsert_rows idx upd touched trs (s # ss)
            = upsert_rows idx upd (k0 # touched) (trs @ [s]) ss"
        using k0 nc by simp
      show "rows_with idx k0 (trs @ [s])
            = (if rows_with idx k0 trs = [] then [s]
               else map (\<lambda>t. overwrite t s upd) (rows_with idx k0 trs))"
        using True k0 by (simp add: rows_with_def)
      show "rows_with idx k (trs @ [s]) = rows_with idx k trs" if "k \<noteq> k0" for k
        using that k0 by (simp add: rows_with_def)
    qed
  next
    case False
    then have cf: "\<exists>t\<in>set trs. t idx = Some k0" by (simp add: rows_with_empty_iff)
    show ?thesis
    proof (cases "upd = []")
      case True
      show ?thesis
      proof (rule step [of trs])
        show "upsert_rows idx upd touched trs (s # ss)
              = upsert_rows idx upd (k0 # touched) trs ss"
          using k0 cf True by simp
        show "rows_with idx k0 trs
              = (if rows_with idx k0 trs = [] then [s]
                 else map (\<lambda>t. overwrite t s upd) (rows_with idx k0 trs))"
          using False True by simp
      qed simp
    next
      case nonempty: False
      let ?trs1 = "map (\<lambda>t. if t idx = Some k0 then overwrite t s upd else t) trs"
      show ?thesis
      proof (rule step [of ?trs1])
        show "upsert_rows idx upd touched trs (s # ss)
              = upsert_rows idx upd (k0 # touched) ?trs1 ss"
          using k0 cf nonempty by simp
        show "rows_with idx k0 ?trs1
              = (if rows_with idx k0 trs = [] then [s]
                 else map (\<lambda>t. overwrite t s upd) (rows_with idx k0 trs))"
          using False rows_with_update_same [of s idx k0 upd trs] k0 by simp
        show "rows_with idx k ?trs1 = rows_with idx k trs" if "k \<noteq> k0" for k
          using rows_with_update_other [of s idx k0 k upd trs] k0 that by simp
      qed
    qed
  qed
qed

lemma upsert_rows_noop:
  assumes "distinct (map (\<lambda>s. s idx) ss)"
    and "\<forall>s\<in>set ss. \<exists>k. s idx = Some k \<and> k \<notin> set touched
            \<and> rows_with idx k trs \<noteq> []
            \<and> (\<forall>t\<in>set (rows_with idx k trs). overwrite t s upd = t)"
  shows "upsert_rows idx upd touched trs ss = Inr trs"
  using assms
proof (induction ss arbitrary: touched)
  case Nil
  then show ?case by simp
next
  case (Cons s ss)
  from Cons.prems(2) obtain k0 where k0: "s idx = Some k0" "k0 \<notin> set touched"
    "rows_with idx k0 trs \<noteq> []" "\<forall>t\<in>set (rows_with idx k0 trs). overwrite t s upd = t"
    by auto
  have nk: "\<forall>s'\<in>set ss. s' idx \<noteq> Some k0" using Cons.prems(1) k0(1) by (auto simp: image_iff)
  have cf: "\<exists>t\<in>set trs. t idx = Some k0" using k0(3) by (simp add: rows_with_empty_iff)
  have same: "map (\<lambda>t. if t idx = Some k0 then overwrite t s upd else t) trs = trs"
    using k0(4) by (intro map_idI) (simp add: rows_with_def)
  have pre: "\<forall>s'\<in>set ss. \<exists>k. s' idx = Some k \<and> k \<notin> set (k0 # touched)
            \<and> rows_with idx k trs \<noteq> []
            \<and> (\<forall>t\<in>set (rows_with idx k trs). overwrite t s' upd = t)"
  proof
    fix s' assume m: "s' \<in> set ss"
    with Cons.prems(2) obtain k where k: "s' idx = Some k" "k \<notin> set touched"
      "rows_with idx k trs \<noteq> []" "\<forall>t\<in>set (rows_with idx k trs). overwrite t s' upd = t"
      by auto
    from nk m k(1) have "k \<noteq> k0" by auto
    with k show "\<exists>k. s' idx = Some k \<and> k \<notin> set (k0 # touched)
            \<and> rows_with idx k trs \<noteq> []
            \<and> (\<forall>t\<in>set (rows_with idx k trs). overwrite t s' upd = t)"
      by auto
  qed
  have "distinct (map (\<lambda>s. s idx) ss)" using Cons.prems(1) by simp
  then have "upsert_rows idx upd (k0 # touched) trs ss = Inr trs"
    using pre by (rule Cons.IH)
  then show ?case using k0 cf same by (cases "upd = []") simp_all
qed


lemma find_distinct_key:
  assumes "distinct (map (\<lambda>s. s idx) ss)" and "s \<in> set ss" and "s idx = Some k"
  shows "find (\<lambda>s. s idx = Some k) ss = Some s"
  using assms
proof (induction ss)
  case Nil
  then show ?case by simp
next
  case (Cons a ss)
  show ?case
  proof (cases "a idx = Some k")
    case True
    then have "a = s" using Cons.prems by (auto simp: image_iff)
    then show ?thesis using True by simp
  next
    case False
    then have "s \<in> set ss" using Cons.prems by auto
    then show ?thesis using Cons.IH Cons.prems False by simp
  qed
qed

lemma upserted_present:
  assumes "distinct (map (\<lambda>s. s idx) ss)" and "s \<in> set ss" and "s idx = Some k"
  shows "upserted idx upd ss k old
         = (if old = [] then [s] else map (\<lambda>t. overwrite t s upd) old)"
  using find_distinct_key [of idx ss s k] assms by (simp add: upserted_def)

lemma sql_row_key:
  "idx \<in> set cols \<Longrightarrow> r idx = Some (Val k) \<Longrightarrow> sql_row cols r idx = Some k"
  by (simp add: sql_row_def)

lemma staged_keys_distinct:
  assumes "distinct (map (\<lambda>r. r idx) rs)" and "\<forall>r\<in>set rs. \<exists>k. r idx = Some (Val k)"
    and "idx \<in> set cols"
  shows "distinct (map (\<lambda>s. s idx) (map (sql_row cols) rs))"
proof -
  let ?f = "\<lambda>c. case c of Some (Val k) \<Rightarrow> Some k | _ \<Rightarrow> None"
  have eq: "map (\<lambda>s. s idx) (map (sql_row cols) rs) = map ?f (map (\<lambda>r. r idx) rs)"
    using assms(3) by (simp add: sql_row_def)
  have inj: "inj_on ?f (set (map (\<lambda>r. r idx) rs))"
  proof (rule inj_onI)
    fix x y
    assume x: "x \<in> set (map (\<lambda>r. r idx) rs)" and y: "y \<in> set (map (\<lambda>r. r idx) rs)"
      and e: "?f x = ?f y"
    from x assms(2) obtain kx where kx: "x = Some (Val kx)" by auto
    from y assms(2) obtain ky where ky: "y = Some (Val ky)" by auto
    from e kx ky show "x = y" by simp
  qed
  have "distinct (map ?f (map (\<lambda>r. r idx) rs))"
    using assms(1) inj by (simp only: distinct_map)
  then show ?thesis by (simp only: eq)
qed

lemma upsert_nothing_success:
  assumes "upsert_rows idx [] touched trs ss = Inr trs'"
  shows "set trs \<subseteq> set trs'
         \<and> (\<forall>s\<in>set ss. \<exists>k. s idx = Some k \<and> (\<exists>t\<in>set trs'. t idx = Some k))"
  using assms
proof (induction ss arbitrary: touched trs)
  case Nil
  then show ?case by simp
next
  case (Cons s ss)
  from Cons.prems obtain k where k: "s idx = Some k"
    by (cases "s idx") simp_all
  show ?case
  proof (cases "\<exists>t\<in>set trs. t idx = Some k")
    case True
    then have "upsert_rows idx [] (k # touched) trs ss = Inr trs'"
      using Cons.prems k by simp
    from Cons.IH [OF this] show ?thesis using True k by auto
  next
    case False
    then have "upsert_rows idx [] (k # touched) (trs @ [s]) ss = Inr trs'"
      using Cons.prems k by simp
    from Cons.IH [OF this] show ?thesis using k by auto
  qed
qed

lemma upsert_nothing_noop:
  assumes "\<forall>s\<in>set ss. \<exists>k. s idx = Some k \<and> (\<exists>t\<in>set trs. t idx = Some k)"
  shows "upsert_rows idx [] touched trs ss = Inr trs"
  using assms
proof (induction ss arbitrary: touched)
  case Nil
  then show ?case by simp
next
  case (Cons s ss)
  from Cons.prems obtain k where k: "s idx = Some k" "\<exists>t\<in>set trs. t idx = Some k"
    by auto
  have "upsert_rows idx [] (k # touched) trs ss = Inr trs"
    using Cons.prems by (intro Cons.IH) simp
  then show ?case using k by simp
qed

lemma keys_after_update:
  assumes "s idx = Some k"
  shows "(\<exists>t\<in>set (map (\<lambda>t. if t idx = Some k then overwrite t s upd else t) trs). t idx = Some k')
         \<longleftrightarrow> (\<exists>t\<in>set trs. t idx = Some k')"
  using assms by (induction trs) (auto simp: overwrite_def)

lemma upsert_success_keys:
  assumes "upd \<noteq> []" and "upsert_rows idx upd touched trs ss = Inr trs'"
    and "\<forall>k\<in>set touched. \<exists>t\<in>set trs. t idx = Some k"
  shows "distinct (map (\<lambda>s. s idx) ss)
         \<and> (\<forall>s\<in>set ss. \<exists>k. s idx = Some k \<and> k \<notin> set touched)"
  using assms(2,3)
proof (induction ss arbitrary: touched trs)
  case Nil
  then show ?case by simp
next
  case (Cons s ss)
  from Cons.prems(1) obtain k where k: "s idx = Some k"
    by (cases "s idx") simp_all
  have fresh: "k \<notin> set touched"
  proof (cases "\<exists>t\<in>set trs. t idx = Some k")
    case True
    then show ?thesis using Cons.prems(1) k assms(1) by (cases "k \<in> set touched") simp_all
  next
    case False
    then show ?thesis using Cons.prems(2) by auto
  qed
  have "\<exists>trs1. upsert_rows idx upd (k # touched) trs1 ss = Inr trs'
          \<and> (\<forall>k'\<in>set (k # touched). \<exists>t\<in>set trs1. t idx = Some k')"
  proof (cases "\<exists>t\<in>set trs. t idx = Some k")
    case True
    let ?trs1 = "map (\<lambda>t. if t idx = Some k then overwrite t s upd else t) trs"
    have "upsert_rows idx upd (k # touched) ?trs1 ss = Inr trs'"
      using Cons.prems(1) k True fresh assms(1) by simp
    moreover have "\<forall>k'\<in>set (k # touched). \<exists>t\<in>set ?trs1. t idx = Some k'"
      using Cons.prems(2) True k keys_after_update [of s idx k upd trs] by simp
    ultimately show ?thesis by blast
  next
    case False
    have "upsert_rows idx upd (k # touched) (trs @ [s]) ss = Inr trs'"
      using Cons.prems(1) k False by simp
    moreover have "\<forall>k'\<in>set (k # touched). \<exists>t\<in>set (trs @ [s]). t idx = Some k'"
      using Cons.prems(2) k by auto
    ultimately show ?thesis by blast
  qed
  then obtain trs1 where r: "upsert_rows idx upd (k # touched) trs1 ss = Inr trs'"
    and inv: "\<forall>k'\<in>set (k # touched). \<exists>t\<in>set trs1. t idx = Some k'"
    by blast
  from Cons.IH [OF r inv] have d: "distinct (map (\<lambda>s. s idx) ss)"
    and n: "\<forall>s'\<in>set ss. \<exists>k'. s' idx = Some k' \<and> k' \<notin> set (k # touched)"
    by simp_all
  have "Some k \<notin> set (map (\<lambda>s. s idx) ss)" using n by auto
  then show ?case using d n k fresh by auto
qed

lemma upsert_rows_again:
  assumes "upsert_rows idx upd [] trs ss = Inr trs'"
  shows "upsert_rows idx upd [] trs' ss = Inr trs'"
proof (cases "upd = []")
  case True
  from assms have "\<forall>s\<in>set ss. \<exists>k. s idx = Some k \<and> (\<exists>t\<in>set trs'. t idx = Some k)"
    using upsert_nothing_success [of idx "[]" trs ss trs'] True by simp
  then show ?thesis using upsert_nothing_noop [of ss idx trs' "[]"] True by simp
next
  case False
  from upsert_success_keys [OF False assms] have d: "distinct (map (\<lambda>s. s idx) ss)"
    and n: "\<forall>s\<in>set ss. \<exists>k. s idx = Some k \<and> k \<notin> set []"
    by simp_all
  from upsert_rows_char [OF d n, of upd trs] assms
  have ch: "\<And>k. rows_with idx k trs' = upserted idx upd ss k (rows_with idx k trs)"
    by auto
  have pre: "\<forall>s\<in>set ss. \<exists>k. s idx = Some k \<and> k \<notin> set []
            \<and> rows_with idx k trs' \<noteq> []
            \<and> (\<forall>t\<in>set (rows_with idx k trs'). overwrite t s upd = t)"
  proof
    fix s assume m: "s \<in> set ss"
    then obtain k where sk: "s idx = Some k" using n by auto
    let ?old = "rows_with idx k trs"
    have one: "rows_with idx k trs'
               = (if ?old = [] then [s] else map (\<lambda>t. overwrite t s upd) ?old)"
      using ch [of k] upserted_present [of idx ss s k upd ?old] d m sk by simp
    then have "rows_with idx k trs' \<noteq> []" by simp
    moreover have "\<forall>t\<in>set (rows_with idx k trs'). overwrite t s upd = t"
      unfolding one by (auto simp: overwrite_twice overwrite_self)
    ultimately show "\<exists>k. s idx = Some k \<and> k \<notin> set []
            \<and> rows_with idx k trs' \<noteq> []
            \<and> (\<forall>t\<in>set (rows_with idx k trs'). overwrite t s upd = t)"
      using sk by simp
  qed
  show ?thesis
    by (rule upsert_rows_noop [of idx ss "[]" trs' upd, OF d pre])
qed

lemma row_fits_cong:
  "tcolumns T = tcolumns T' \<Longrightarrow> tholds T = tholds T' \<Longrightarrow> row_fits T = row_fits T'"
  by (rule ext) (simp add: row_fits_def cong: option.case_cong)

lemma staged_restrict:
  "map (\<lambda>r. r |` set cols) (map (sql_row cols) rs) = map (sql_row cols) rs"
  by (simp add: sql_row_restrict)

lemma sync_run_unfold:
  "save_postgres_data_run reserved dtypes md5 db t df iname ''sync''
   = (case create_table_as db (t @ ''_'' @ md5 df) t of
        Inl e \<Rightarrow> (db, Some e)
      | Inr db1 \<Rightarrow>
          (case to_sql dtypes db1 (t @ ''_'' @ md5 df) df ''append'' of
             Inl e \<Rightarrow> (db1, Some e)
           | Inr db2 \<Rightarrow>
               (case insert_on_conflict reserved db2 t (columns df) (t @ ''_'' @ md5 df)
                       iname (filter (\<lambda>column. Some column \<noteq> iname) (columns df)) of
                  Inl e \<Rightarrow> (db2, Some e)
                | Inr db3 \<Rightarrow>
                    (case drop_table db3 (t @ ''_'' @ md5 df) of
                       Inl e \<Rightarrow> (db3, Some e)
                     | Inr db4 \<Rightarrow> (db4, None)))))"
  unfolding save_postgres_data_run_def Let_def
  by (simp only: if_True simp_thms)

lemma sync_run_staging_left:
  assumes "db (t @ ''_'' @ md5 df) = Some S"
  shows "save_postgres_data_run reserved dtypes md5 db t df iname ''sync''
         = (db, Some ProgrammingError)"
proof -
  have "create_table_as db (t @ ''_'' @ md5 df) t = Inl ProgrammingError"
    using assms by (simp add: create_table_as_def split: option.splits)
  then show ?thesis by (simp only: sync_run_unfold sum.case)
qed

lemma sync_run_no_target:
  assumes "db t = None"
  shows "save_postgres_data_run reserved dtypes md5 db t df iname ''sync''
         = (db, Some ProgrammingError)"
proof -
  have "create_table_as db (t @ ''_'' @ md5 df) t = Inl ProgrammingError"
    using assms by (simp add: create_table_as_def)
  then show ?thesis by (simp only: sync_run_unfold sum.case)
qed

lemma sync_run_cases:
  assumes T: "db t = Some T" and free: "db (t @ ''_'' @ md5 df) = None"
  shows "(\<exists>db' e S. save_postgres_data_run reserved dtypes md5 db t df iname ''sync''
                       = (db', Some e) \<and> db' (t @ ''_'' @ md5 df) = Some S)
       \<or> (\<exists>idx trs.
             unquoted_identifier reserved (case iname of None \<Rightarrow> ''None'' | Some n \<Rightarrow> n)
               = Some idx
           \<and> columns df \<noteq> [] \<and> tkey T = Some idx
           \<and> set (columns df) \<subseteq> set (tcolumns T)
           \<and> list_all (row_fits T) (map (sql_row (columns df)) (rows df))
           \<and> upsert_rows idx (filter (\<lambda>column. Some column \<noteq> iname) (columns df)) []
                (trows T) (map (sql_row (columns df)) (rows df)) = Inr trs
           \<and> save_postgres_data_run reserved dtypes md5 db t df iname ''sync''
               = (db(t \<mapsto> T\<lparr>trows := trs\<rparr>), None))"
proof -
  let ?tmp = "t @ ''_'' @ md5 df"
  let ?cols = "columns df"
  let ?upd = "filter (\<lambda>column. Some column \<noteq> iname) ?cols"
  let ?ss = "map (sql_row ?cols) (rows df)"
  let ?E = "\<lparr>tcolumns = tcolumns T, tkey = None, tholds = tholds T, trows = []\<rparr> :: 'a table"
  let ?S = "?E\<lparr>trows := ?ss\<rparr>"
  let ?db1 = "db(?tmp \<mapsto> ?E)"
  let ?db2 = "?db1(?tmp \<mapsto> ?S)"
  let ?run = "save_postgres_data_run reserved dtypes md5 db t df iname ''sync''"
  let ?name = "case iname of None \<Rightarrow> ''None'' | Some n \<Rightarrow> n"
  have ne: "?tmp \<noteq> t" by simp
  have c: "create_table_as db ?tmp t = Inr ?db1"
    using T free by (simp add: create_table_as_def)
  have fE: "row_fits ?E = row_fits T" by (rule row_fits_cong) simp_all
  have a: "to_sql dtypes ?db1 ?tmp df ''append''
           = (if \<not> set ?cols \<subseteq> set (tcolumns T) then Inl ProgrammingError
              else if \<not> list_all (row_fits T) ?ss then Inl DataError
              else Inr ?db2)"
    by (simp add: to_sql_def insert_rows_no_key then_do_Inr fE del: map_map)
  have t2: "?db2 t = Some T" "?db2 ?tmp = Some ?S" using T ne by simp_all
  have u: "insert_on_conflict reserved ?db2 t ?cols ?tmp iname ?upd
           = (case unquoted_identifier reserved ?name of
                None \<Rightarrow> Inl ProgrammingError
              | Some idx \<Rightarrow>
                  if ?cols = [] \<or> tkey T \<noteq> Some idx then Inl ProgrammingError
                  else if \<not> set ?cols \<subseteq> set (tcolumns T) then Inl ProgrammingError
                  else if \<not> list_all (row_fits T) ?ss then Inl DataError
                  else then_do (upsert_rows idx ?upd [] (trows T) ?ss)
                         (\<lambda>trs. Inr (?db2(t \<mapsto> T\<lparr>trows := trs\<rparr>))))"
    unfolding insert_on_conflict_def
    by (simp only: t2 prod.case option.case) (simp add: staged_restrict del: map_map cong: if_cong option.case_cong)
  have d: "drop_table (?db2(t \<mapsto> T')) ?tmp = Inr (db(t \<mapsto> T'))" for T'
  proof -
    have "(?db2(t \<mapsto> T'))(?tmp := None) = db(t \<mapsto> T')"
      using free ne by (intro ext) simp
    moreover have "(?db2(t \<mapsto> T')) ?tmp = Some ?S" using ne by simp
    ultimately show ?thesis unfolding drop_table_def by simp
  qed
  have left1: "?db1 ?tmp = Some ?E" by simp
  show ?thesis
  proof (cases "to_sql dtypes ?db1 ?tmp df ''append''")
    case (Inl e)
    then have "?run = (?db1, Some e)" using c by (simp only: sync_run_unfold sum.case)
    then show ?thesis using left1 by blast
  next
    case (Inr db2)
    then have ok: "set ?cols \<subseteq> set (tcolumns T)" "list_all (row_fits T) ?ss" "db2 = ?db2"
      using a by (simp_all split: if_splits)
    have a2: "to_sql dtypes ?db1 ?tmp df ''append'' = Inr ?db2" using Inr ok(3) by simp
    show ?thesis
    proof (cases "insert_on_conflict reserved ?db2 t ?cols ?tmp iname ?upd")
      case (Inl e)
      then have "?run = (?db2, Some e)" using c a2 by (simp only: sync_run_unfold sum.case)
      then show ?thesis using t2(2) by blast
    next
      case db3: (Inr db3)
      from db3 u obtain idx where idx: "unquoted_identifier reserved ?name = Some idx"
        by (cases "unquoted_identifier reserved ?name") simp_all
      from db3 u idx have k: "?cols \<noteq> []" "tkey T = Some idx"
        by (simp_all split: if_splits)
      from db3 u idx k ok obtain trs where
        trs: "upsert_rows idx ?upd [] (trows T) ?ss = Inr trs"
        by (cases "upsert_rows idx ?upd [] (trows T) ?ss") (simp_all add: then_do_Inl)
      from db3 u idx k ok trs have e3: "db3 = ?db2(t \<mapsto> T\<lparr>trows := trs\<rparr>)"
        by (simp add: then_do_Inr)
      have "?run = (db(t \<mapsto> T\<lparr>trows := trs\<rparr>), None)"
        using c a2 db3 d [of "T\<lparr>trows := trs\<rparr>"] unfolding e3
        by (simp only: sync_run_unfold sum.case)
      then show ?thesis using idx k ok(1,2) trs by blast
    qed
  qed
qed

lemma sync_run_success:
  assumes T: "db t = Some T" and free: "db (t @ ''_'' @ md5 df) = None"
    and idx: "unquoted_identifier reserved (case iname of None \<Rightarrow> ''None'' | Some n \<Rightarrow> n)
               = Some idx"
    and k: "columns df \<noteq> []" "tkey T = Some idx"
    and ok: "set (columns df) \<subseteq> set (tcolumns T)"
       "list_all (row_fits T) (map (sql_row (columns df)) (rows df))"
    and trs: "upsert_rows idx (filter (\<lambda>column. Some column \<noteq> iname) (columns df)) []
                (trows T) (map (sql_row (columns df)) (rows df)) = Inr trs"
  shows "save_postgres_data_run reserved dtypes md5 db t df iname ''sync''
               = (db(t \<mapsto> T\<lparr>trows := trs\<rparr>), None)"
proof -
  let ?tmp = "t @ ''_'' @ md5 df"
  let ?cols = "columns df"
  let ?upd = "filter (\<lambda>column. Some column \<noteq> iname) ?cols"
  let ?ss = "map (sql_row ?cols) (rows df)"
  let ?E = "\<lparr>tcolumns = tcolumns T, tkey = None, tholds = tholds T, trows = []\<rparr> :: 'a table"
  let ?S = "?E\<lparr>trows := ?ss\<rparr>"
  let ?db1 = "db(?tmp \<mapsto> ?E)"
  let ?db2 = "?db1(?tmp \<mapsto> ?S)"
  have ne: "?tmp \<noteq> t" by simp
  have c: "create_table_as db ?tmp t = Inr ?db1"
    using T free by (simp add: create_table_as_def)
  have fE: "row_fits ?E = row_fits T" by (rule row_fits_cong) simp_all
  have a: "to_sql dtypes ?db1 ?tmp df ''append'' = Inr ?db2"
    using ok by (simp add: to_sql_def insert_rows_no_key then_do_Inr fE del: map_map)
  have t2: "?db2 t = Some T" "?db2 ?tmp = Some ?S" using T ne by simp_all
  have u: "insert_on_conflict reserved ?db2 t ?cols ?tmp iname ?upd
           = Inr (?db2(t \<mapsto> T\<lparr>trows := trs\<rparr>))"
    unfolding insert_on_conflict_def
    by (simp only: t2 prod.case option.case idx)
       (simp add: staged_restrict k ok trs then_do_Inr del: map_map)
  have d: "drop_table (?db2(t \<mapsto> T\<lparr>trows := trs\<rparr>)) ?tmp = Inr (db(t \<mapsto> T\<lparr>trows := trs\<rparr>))"
  proof -
    have "(?db2(t \<mapsto> T\<lparr>trows := trs\<rparr>))(?tmp := None) = db(t \<mapsto> T\<lparr>trows := trs\<rparr>)"
      using free ne by (intro ext) simp
    moreover have "(?db2(t \<mapsto> T\<lparr>trows := trs\<rparr>)) ?tmp = Some ?S" using ne by simp
    ultimately show ?thesis unfolding drop_table_def by simp
  qed
  show ?thesis using c a u d by (simp only: sync_run_unfold sum.case)
qed

lemma sync_run_twice:
  "fst (save_postgres_data_run reserved dtypes md5
          (fst (save_postgres_data_run reserved dtypes md5 db t df iname ''sync''))
          t df iname ''sync'')
     = fst (save_postgres_data_run reserved dtypes md5 db t df iname ''sync'')
   \<and> (snd (save_postgres_data_run reserved dtypes md5 db t df iname ''sync'') = None \<longrightarrow>
        snd (save_postgres_data_run reserved dtypes md5
               (fst (save_postgres_data_run reserved dtypes md5 db t df iname ''sync''))
               t df iname ''sync'') = None)"
proof -
  let ?tmp = "t @ ''_'' @ md5 df"
  let ?R = "\<lambda>db. save_postgres_data_run reserved dtypes md5 db t df iname ''sync''"
  let ?cols = "columns df"
  let ?upd = "filter (\<lambda>column. Some column \<noteq> iname) ?cols"
  let ?ss = "map (sql_row ?cols) (rows df)"
  let ?name = "case iname of None \<Rightarrow> ''None'' | Some n \<Rightarrow> n"
  have fails: "fst (?R (fst (?R db))) = fst (?R db) \<and> (snd (?R db) = None \<longrightarrow> snd (?R (fst (?R db))) = None)"
    if "?R db = (db, Some e)" for e
    using that by simp
  have left: "fst (?R (fst (?R db))) = fst (?R db) \<and> (snd (?R db) = None \<longrightarrow> snd (?R (fst (?R db))) = None)"
    if r: "?R db = (db', Some e)" and s: "db' ?tmp = Some S" for db' e S
  proof -
    have "?R db' = (db', Some ProgrammingError)"
      using s by (rule sync_run_staging_left)
    then show ?thesis using r by simp
  qed
  show ?thesis
  proof (cases "db t")
    case None
    then have "?R db = (db, Some ProgrammingError)" by (rule sync_run_no_target)
    then show ?thesis by (rule fails)
  next
    case T: (Some T)
    show ?thesis
    proof (cases "db ?tmp")
      case (Some S)
      then have "?R db = (db, Some ProgrammingError)" by (rule sync_run_staging_left)
      then show ?thesis by (rule fails)
    next
      case free: None
      from sync_run_cases [of db t T md5 df reserved dtypes iname, OF T free]
      show ?thesis
      proof (elim disjE exE conjE)
        fix db' e S
        assume "?R db = (db', Some e)" and "db' ?tmp = Some S"
        then show ?thesis by (rule left)
      next
        fix idx trs
        assume idx: "unquoted_identifier reserved ?name = Some idx"
          and k: "?cols \<noteq> []" "tkey T = Some idx"
          and ok: "set ?cols \<subseteq> set (tcolumns T)" "list_all (row_fits T) ?ss"
          and trs: "upsert_rows idx ?upd [] (trows T) ?ss = Inr trs"
          and r: "?R db = (db(t \<mapsto> T\<lparr>trows := trs\<rparr>), None)"
        let ?T' = "T\<lparr>trows := trs\<rparr>"
        let ?db' = "db(t \<mapsto> ?T')"
        have T': "?db' t = Some ?T'" by simp
        have free': "?db' ?tmp = None" using free by simp
        have k': "tkey ?T' = Some idx" using k(2) by simp
        have c': "set ?cols \<subseteq> set (tcolumns ?T')" using ok(1) by simp
        have "row_fits ?T' = row_fits T" by (rule row_fits_cong) simp_all
        then have f': "list_all (row_fits ?T') ?ss" using ok(2) by simp
        have again: "upsert_rows idx ?upd [] (trows ?T') ?ss = Inr trs"
          using upsert_rows_again [OF trs] by simp
        have "?R ?db' = (?db'(t \<mapsto> ?T'\<lparr>trows := trs\<rparr>), None)"
          by (rule sync_run_success [of ?db' t ?T' md5 df reserved iname idx trs dtypes,
                OF T' free' idx k(1) k' c' f' again])
        moreover have "?db'(t \<mapsto> ?T'\<lparr>trows := trs\<rparr>) = ?db'" by simp
        ultimately have "?R ?db' = (?db', None)" by simp
        then show ?thesis using r by simp
      qed
    qed
  qed
qed

lemma sync_run_key_mismatch:
  assumes T: "db t = Some T" and free: "db (t @ ''_'' @ md5 df) = None"
    and ok: "set (columns df) \<subseteq> set (tcolumns T)"
       "list_all (row_fits T) (map (sql_row (columns df)) (rows df))"
    and k: "unquoted_identifier reserved (case iname of None \<Rightarrow> ''None'' | Some n \<Rightarrow> n)
              \<noteq> tkey T \<or> tkey T = None"
  shows "save_postgres_data_run reserved dtypes md5 db t df iname ''sync''
         = (db(t @ ''_'' @ md5 df \<mapsto>
                 \<lparr>tcolumns = tcolumns T, tkey = None, tholds = tholds T,
                  trows = map (sql_row (columns df)) (rows df)\<rparr>),
            Some ProgrammingError)"
proof -
  let ?tmp = "t @ ''_'' @ md5 df"
  let ?cols = "columns df"
  let ?upd = "filter (\<lambda>column. Some column \<noteq> iname) ?cols"
  let ?ss = "map (sql_row ?cols) (rows df)"
  let ?E = "\<lparr>tcolumns = tcolumns T, tkey = None, tholds = tholds T, trows = []\<rparr> :: 'a table"
  let ?S = "\<lparr>tcolumns = tcolumns T, tkey = None, tholds = tholds T, trows = ?ss\<rparr> :: 'a table"
  let ?db1 = "db(?tmp \<mapsto> ?E)"
  let ?db2 = "db(?tmp \<mapsto> ?S)"
  have ne: "?tmp \<noteq> t" by simp
  have c: "create_table_as db ?tmp t = Inr ?db1"
    using T free by (simp add: create_table_as_def)
  have fE: "row_fits ?E = row_fits T" by (rule row_fits_cong) simp_all
  have a: "to_sql dtypes ?db1 ?tmp df ''append'' = Inr ?db2"
    using ok by (simp add: to_sql_def insert_rows_no_key then_do_Inr fE del: map_map)
  have t2: "?db2 t = Some T" "?db2 ?tmp = Some ?S" using T ne by simp_all
  have u: "insert_on_conflict reserved ?db2 t ?cols ?tmp iname ?upd = Inl ProgrammingError"
    unfolding insert_on_conflict_def
    using k by (simp only: t2 prod.case option.case) (auto split: option.splits)
  show ?thesis using c a u by (simp only: sync_run_unfold sum.case)
qed

lemma lower_ID: "map lower ''ID'' = ''id''"
  by (simp add: lower_def upper_letters_def lower_letters_def)

text \<open>
  C1 (sync upsert correctness), at a key column whose name needs its quotes. The target
  \<open>t\<close> has the primary key \<open>ID\<close> and holds the row \<open>(1, 10)\<close>; the dataset, indexed
  by \<open>ID\<close>, holds \<open>(1, 20)\<close> and \<open>(2, 30)\<close>. The statement names the conflict target
  without quotes, \<open>ON CONFLICT (ID)\<close>, though it quotes every table and column name
  around it; the server reads \<open>id\<close> (or a key word), the target has no such column,
  and the sync save raises \<open>ProgrammingError\<close>, whatever the reserved words and the
  column types are. The target is left as it was: the row of key \<open>1\<close> still carries
  \<open>10\<close>, not \<open>20\<close>, and the row of key \<open>2\<close> has not been inserted.
\<close>

theorem sync_unquoted_conflict_target_raises:
  "save_postgres_data reserved dtypes example_md5 [''t'' \<mapsto> example_target_ID] ''t''
     example_frame_ID (Some ''ID'') ''sync'' = Inl ProgrammingError
   \<and> target_rows
       (fst (save_postgres_data_run reserved dtypes example_md5 [''t'' \<mapsto> example_target_ID]
               ''t'' example_frame_ID (Some ''ID'') ''sync'')) ''t''
     = [[''ID'' \<mapsto> 1, ''x'' \<mapsto> 10]]"
proof -
  let ?db = "[''t'' \<mapsto> example_target_ID]"
  have T: "?db ''t'' = Some example_target_ID" by simp
  have free: "?db (''t'' @ ''_'' @ example_md5 example_frame_ID) = None"
    by (simp add: example_md5_def)
  have c: "set (columns example_frame_ID) \<subseteq> set (tcolumns example_target_ID)"
    by (simp add: example_frame_ID_def example_target_ID_def)
  have f: "list_all (row_fits example_target_ID)
             (map (sql_row (columns example_frame_ID)) (rows example_frame_ID))"
    by (simp add: example_frame_ID_def example_target_ID_def row_fits_def split: option.splits)
  have k: "unquoted_identifier reserved (case Some ''ID'' of None \<Rightarrow> ''None'' | Some n \<Rightarrow> n)
             \<noteq> tkey example_target_ID \<or> tkey example_target_ID = None"
    by (simp add: unquoted_identifier_def lower_ID example_target_ID_def del: list.map)
  have r: "save_postgres_data_run reserved dtypes example_md5 ?db ''t'' example_frame_ID
             (Some ''ID'') ''sync''
           = (?db(''t'' @ ''_'' @ example_md5 example_frame_ID \<mapsto>
                 \<lparr>tcolumns = tcolumns example_target_ID, tkey = None,
                  tholds = tholds example_target_ID,
                  trows = map (sql_row (columns example_frame_ID)) (rows example_frame_ID)\<rparr>),
              Some ProgrammingError)"
    by (rule sync_run_key_mismatch [of ?db "''t''" example_target_ID example_md5
          example_frame_ID reserved "Some ''ID''" dtypes, OF T free c f k])
  have "save_postgres_data reserved dtypes example_md5 ?db ''t'' example_frame_ID
          (Some ''ID'') ''sync'' = Inl ProgrammingError"
    by (simp only: save_postgres_data_def r prod.case option.case)
  moreover have "target_rows (fst (save_postgres_data_run reserved dtypes example_md5 ?db ''t''
                     example_frame_ID (Some ''ID'') ''sync'')) ''t''
                 = [[''ID'' \<mapsto> 1, ''x'' \<mapsto> 10]]"
    by (simp only: r fst_conv) (simp add: target_rows_def example_md5_def example_target_ID_def)
  ultimately show ?thesis by simp
qed

lemma upserted_length:
  "length old \<le> 1 \<Longrightarrow> length (upserted idx upd ss k old) \<le> 1"
  by (simp add: upserted_def split: option.splits)

text \<open>
  The upsert where the conflict target reads as the key: the name of the key column is
  a plain lower-case name that is not reserved, so that it means the same with and
  without quotes. Let the target \<open>t\<close> exist with primary key \<open>idx\<close> (at most one row
  per key), let the staging name be free and the dataset fit the target: its columns are
  columns of \<open>t\<close>, \<open>idx\<close> among them, its values fit their types, and its keys are
  present and pairwise distinct. Then the sync save returns, and for every row \<open>r\<close> of
  the dataset, with key \<open>k\<close>, the target afterwards holds exactly one row for \<open>k\<close>;
  that row carries the value of \<open>r\<close> in every column of the dataset (a missing value as
  \<open>NULL\<close>), and in the other columns it keeps what the target held for \<open>k\<close> before,
  or is \<open>NULL\<close> when the key was absent and the row has been inserted.
\<close>

lemma sync_upsert_plain_key:
  assumes "db t = Some T" and "db (t @ ''_'' @ md5 df) = None" and "tkey T = Some idx"
    and "unquoted_identifier reserved idx = Some idx"
    and "set (columns df) \<subseteq> set (tcolumns T)" and "idx \<in> set (columns df)"
    and "list_all (row_fits T) (map (sql_row (columns df)) (rows df))"
    and "distinct (map (\<lambda>r. r idx) (rows df))"
    and "\<forall>r\<in>set (rows df). \<exists>k. r idx = Some (Val k)"
    and "\<forall>k. length (rows_with idx k (trows T)) \<le> 1"
    and "r \<in> set (rows df)" and "r idx = Some (Val k)"
  shows "\<exists>db' T' r'. save_postgres_data reserved dtypes md5 db t df (Some idx) ''sync'' = Inr db'
           \<and> db' t = Some T' \<and> rows_with idx k (trows T') = [r']
           \<and> (\<forall>c\<in>set (columns df). r' c = sql_row (columns df) r c)
           \<and> (\<forall>c. c \<notin> set (columns df) \<longrightarrow>
                  r' c = (case rows_with idx k (trows T) of [] \<Rightarrow> None | old # _ \<Rightarrow> old c))
           \<and> (\<forall>k'. length (rows_with idx k' (trows T')) \<le> 1)"
proof -
  let ?cols = "columns df"
  let ?upd = "filter (\<lambda>column. Some column \<noteq> Some idx) ?cols"
  let ?ss = "map (sql_row ?cols) (rows df)"
  let ?s = "sql_row ?cols r"
  let ?old = "rows_with idx k (trows T)"
  have d: "distinct (map (\<lambda>s. s idx) ?ss)"
    by (rule staged_keys_distinct [of idx "rows df" ?cols, OF assms(8) assms(9) assms(6)])
  have n: "\<forall>s\<in>set ?ss. \<exists>k. s idx = Some k \<and> k \<notin> set []"
    using assms(6,9) by (auto simp: sql_row_def)
  from upsert_rows_char [OF d n, of ?upd "trows T"]
  obtain trs' where
    up: "upsert_rows idx ?upd [] (trows T) ?ss = Inr trs'"
    and ch: "\<And>k. rows_with idx k trs' = upserted idx ?upd ?ss k (rows_with idx k (trows T))"
    by blast
  have ne: "?cols \<noteq> []" using assms(6) by auto
  have name: "unquoted_identifier reserved (case Some idx of None \<Rightarrow> ''None'' | Some n \<Rightarrow> n)
              = Some idx"
    using assms(4) by simp
  have "save_postgres_data_run reserved dtypes md5 db t df (Some idx) ''sync''
        = (db(t \<mapsto> T\<lparr>trows := trs'\<rparr>), None)"
    by (rule sync_run_success [of db t T md5 df reserved "Some idx" idx trs' dtypes,
          OF assms(1) assms(2) name ne assms(3) assms(5) assms(7) up])
  then have sv: "save_postgres_data reserved dtypes md5 db t df (Some idx) ''sync''
                 = Inr (db(t \<mapsto> T\<lparr>trows := trs'\<rparr>))"
    by (simp only: save_postgres_data_def prod.case option.case)
  have m: "?s \<in> set ?ss" using assms(11) by simp
  have sk: "?s idx = Some k" using assms(6,12) by (simp add: sql_row_def)
  have one: "rows_with idx k trs'
             = (if ?old = [] then [?s] else map (\<lambda>t. overwrite t ?s ?upd) ?old)"
    using ch [of k] upserted_present [of idx ?ss ?s k ?upd ?old] d m sk by simp
  have uniq: "length (rows_with idx k' trs') \<le> 1" for k'
    using ch [of k'] upserted_length [of "rows_with idx k' (trows T)" idx ?upd ?ss k'] assms(10)
    by simp
  have "\<exists>r'. rows_with idx k trs' = [r']
           \<and> (\<forall>c\<in>set ?cols. r' c = ?s c)
           \<and> (\<forall>c. c \<notin> set ?cols \<longrightarrow> r' c = (case ?old of [] \<Rightarrow> None | old # _ \<Rightarrow> old c))"
  proof (cases ?old)
    case Nil
    then have "rows_with idx k trs' = [?s]" using one by simp
    moreover have "\<forall>c. c \<notin> set ?cols \<longrightarrow> ?s c = None" by (simp add: sql_row_def)
    ultimately show ?thesis using Nil by simp
  next
    case (Cons old rest)
    have "length ?old \<le> 1" using assms(10) by simp
    then have rest: "rest = []" using Cons by simp
    have ok: "old idx = Some k"
    proof -
      have "old \<in> set ?old" using Cons by simp
      then show ?thesis by (simp add: rows_with_def)
    qed
    have r: "rows_with idx k trs' = [overwrite old ?s ?upd]"
      using one Cons rest by simp
    have "overwrite old ?s ?upd c = ?s c" if "c \<in> set ?cols" for c
      using that ok sk by (cases "c = idx") (simp_all add: overwrite_def)
    moreover have "overwrite old ?s ?upd c = old c" if "c \<notin> set ?cols" for c
      using that by (simp add: overwrite_def)
    ultimately show ?thesis using r Cons by simp
  qed
  then obtain r' where
    "rows_with idx k (trows (T\<lparr>trows := trs'\<rparr>)) = [r']"
    "\<forall>c\<in>set ?cols. r' c = ?s c"
    "\<forall>c. c \<notin> set ?cols \<longrightarrow> r' c = (case ?old of [] \<Rightarrow> None | old # _ \<Rightarrow> old c)"
    by auto
  moreover have "(db(t \<mapsto> T\<lparr>trows := trs'\<rparr>)) t = Some (T\<lparr>trows := trs'\<rparr>)" by simp
  moreover have "\<forall>k'. length (rows_with idx k' (trows (T\<lparr>trows := trs'\<rparr>))) \<le> 1"
    using uniq by simp
  ultimately show ?thesis using sv by blast
qed

lemma unquoted_id: "unquoted_identifier example_reserved ''id'' = Some ''id''"
  by (simp add: unquoted_identifier_def example_reserved_def lower_def upper_letters_def
      lower_letters_def)

lemma sync_upsert_plain_key_example:
  "\<exists>db' T' r'. save_postgres_data example_reserved example_dtypes example_md5 example_db ''t''
       example_frame (Some ''id'') ''sync'' = Inr db'
     \<and> db' ''t'' = Some T' \<and> rows_with ''id'' 1 (trows T') = [r']
     \<and> r' ''id'' = Some 1 \<and> r' ''x'' = Some 20"
proof -
  have h1: "example_db ''t'' = Some example_target"
    by (simp add: example_db_def)
  have h2: "example_db (''t'' @ ''_'' @ example_md5 example_frame) = None"
    by (simp add: example_db_def example_md5_def)
  have h3: "tkey example_target = Some ''id''"
    by (simp add: example_target_def)
  have h4: "set (columns example_frame) \<subseteq> set (tcolumns example_target)"
    by (simp add: example_frame_def example_target_def)
  have h5: "''id'' \<in> set (columns example_frame)"
    by (simp add: example_frame_def)
  have hf: "list_all (row_fits example_target)
              (map (sql_row (columns example_frame)) (rows example_frame))"
    by (simp add: example_frame_def example_target_def row_fits_def split: option.splits)
  have h6: "distinct (map (\<lambda>r. r ''id'') (rows example_frame))"
    by (simp add: example_frame_def)
  have h7: "\<forall>r\<in>set (rows example_frame). \<exists>k. r ''id'' = Some (Val k)"
    by (simp add: example_frame_def)
  have h8: "\<forall>k. length (rows_with ''id'' k (trows example_target)) \<le> 1"
    by (simp add: example_target_def rows_with_def)
  have h9: "[''id'' \<mapsto> Val 1, ''x'' \<mapsto> Val 20] \<in> set (rows example_frame)"
    by (simp add: example_frame_def)
  have h10: "[''id'' \<mapsto> Val (1::int), ''x'' \<mapsto> Val 20] ''id'' = Some (Val 1)"
    by simp
  from sync_upsert_plain_key [of example_db "''t''" example_target example_md5 example_frame
      "''id''" example_reserved "[''id'' \<mapsto> Val 1, ''x'' \<mapsto> Val 20]" 1 example_dtypes,
      OF h1 h2 h3 unquoted_id h4 h5 hf h6 h7 h8 h9 h10]
  obtain db' T' r' where
    r: "save_postgres_data example_reserved example_dtypes example_md5 example_db ''t''
          example_frame (Some ''id'') ''sync'' = Inr db'"
      "db' ''t'' = Some T'" "rows_with ''id'' 1 (trows T') = [r']"
      "\<forall>c\<in>set (columns example_frame).
         r' c = sql_row (columns example_frame) [''id'' \<mapsto> Val 1, ''x'' \<mapsto> Val 20] c"
    by blast
  from r(4) have "r' ''id'' = Some 1" "r' ''x'' = Some 20"
    by (simp_all add: example_frame_def sql_row_def)
  with r(1,2,3) show ?thesis by blast
qed

text \<open>
  C2 (sync idempotence). For every database, table name, dataset and index name: the
  database the second sync save of the same dataset leaves behind is the database the
  first one left behind, in the target (so for every key of the dataset) and everywhere
  else. This covers the calls that raise: what a failed first call has left (its staging
  table) makes the second call raise at its first statement and change nothing. And when
  the first call returns, the second call returns too, with the same database.
\<close>

theorem sync_idempotent:
  "fst (save_postgres_data_run reserved dtypes md5
          (fst (save_postgres_data_run reserved dtypes md5 db t df iname ''sync''))
          t df iname ''sync'')
     = fst (save_postgres_data_run reserved dtypes md5 db t df iname ''sync'')
   \<and> (save_postgres_data reserved dtypes md5 db t df iname ''sync'' = Inr db' \<longrightarrow>
        save_postgres_data reserved dtypes md5 db' t df iname ''sync'' = Inr db')"
proof -
  let ?R = "\<lambda>db. save_postgres_data_run reserved dtypes md5 db t df iname ''sync''"
  have tw: "fst (?R (fst (?R db))) = fst (?R db)"
    and ret: "snd (?R db) = None \<longrightarrow> snd (?R (fst (?R db))) = None"
    using sync_run_twice [of reserved dtypes md5 db t df iname] by simp_all
  have "save_postgres_data reserved dtypes md5 db' t df iname ''sync'' = Inr db'"
    if s: "save_postgres_data reserved dtypes md5 db t df iname ''sync'' = Inr db'"
  proof -
    from s have r: "?R db = (db', None)"
      unfolding save_postgres_data_def by (auto split: prod.splits option.splits)
    then have "fst (?R db') = db'" "snd (?R db') = None" using tw ret by simp_all
    then have "?R db' = (db', None)" by (simp add: prod_eq_iff)
    then show ?thesis by (simp only: save_postgres_data_def prod.case option.case)
  qed
  then show ?thesis using tw by blast
qed

theorem sync_idempotent_witness:
  "\<exists>db'. save_postgres_data example_reserved example_dtypes example_md5 example_db ''t''
            example_frame (Some ''id'') ''sync'' = Inr db'
     \<and> save_postgres_data example_reserved example_dtypes example_md5 db' ''t''
            example_frame (Some ''id'') ''sync'' = Inr db'
     \<and> rows_with ''id'' 1 (target_rows db' ''t'') = [[''id'' \<mapsto> 1, ''x'' \<mapsto> 20]]"
proof -
  let ?s1 = "[''id'' \<mapsto> 1, ''x'' \<mapsto> 20] :: int row"
  let ?s2 = "[''id'' \<mapsto> 2, ''x'' \<mapsto> 30] :: int row"
  have h1: "example_db ''t'' = Some example_target"
    by (simp add: example_db_def)
  have h2: "example_db (''t'' @ ''_'' @ example_md5 example_frame) = None"
    by (simp add: example_db_def example_md5_def)
  have h3: "tkey example_target = Some ''id''"
    by (simp add: example_target_def)
  have h4: "set (columns example_frame) \<subseteq> set (tcolumns example_target)"
    by (simp add: example_frame_def example_target_def)
  have hn: "columns example_frame \<noteq> []"
    by (simp add: example_frame_def)
  have hf: "list_all (row_fits example_target)
              (map (sql_row (columns example_frame)) (rows example_frame))"
    by (simp add: example_frame_def example_target_def row_fits_def split: option.splits)
  have name: "unquoted_identifier example_reserved
                (case Some ''id'' of None \<Rightarrow> ''None'' | Some n \<Rightarrow> n) = Some ''id''"
    using unquoted_id by simp
  have st: "map (sql_row (columns example_frame)) (rows example_frame) = [?s1, ?s2]"
    by (auto simp: example_frame_def sql_row_def)
  have ov: "overwrite [''id'' \<mapsto> 1, ''x'' \<mapsto> 10] ?s1 [''x''] = ?s1"
    by (rule ext) (simp add: overwrite_def)
  have up: "upsert_rows ''id'' (filter (\<lambda>column. Some column \<noteq> Some ''id'')
                (columns example_frame)) [] (trows example_target)
              (map (sql_row (columns example_frame)) (rows example_frame))
            = Inr [?s1, ?s2]"
    unfolding st by (simp add: example_frame_def example_target_def ov)
  have "save_postgres_data_run example_reserved example_dtypes example_md5 example_db ''t''
          example_frame (Some ''id'') ''sync''
        = (example_db(''t'' \<mapsto> example_target\<lparr>trows := [?s1, ?s2]\<rparr>), None)"
    by (rule sync_run_success [of example_db "''t''" example_target example_md5 example_frame
          example_reserved "Some ''id''" "''id''" "[?s1, ?s2]" example_dtypes,
          OF h1 h2 name hn h3 h4 hf up])
  then have first:
    "save_postgres_data example_reserved example_dtypes example_md5 example_db ''t''
       example_frame (Some ''id'') ''sync''
     = Inr (example_db(''t'' \<mapsto> example_target\<lparr>trows := [?s1, ?s2]\<rparr>))"
    by (simp only: save_postgres_data_def prod.case option.case)
  have second:
    "save_postgres_data example_reserved example_dtypes example_md5
       (example_db(''t'' \<mapsto> example_target\<lparr>trows := [?s1, ?s2]\<rparr>)) ''t''
       example_frame (Some ''id'') ''sync''
     = Inr (example_db(''t'' \<mapsto> example_target\<lparr>trows := [?s1, ?s2]\<rparr>))"
    using sync_idempotent [of example_reserved example_dtypes example_md5 example_db "''t''"
        example_frame "Some ''id''" "example_db(''t'' \<mapsto> example_target\<lparr>trows := [?s1, ?s2]\<rparr>)"]
      first by blast
  have "rows_with ''id'' 1
          (target_rows (example_db(''t'' \<mapsto> example_target\<lparr>trows := [?s1, ?s2]\<rparr>)) ''t'')
        = [?s1]"
    by (simp add: target_rows_def rows_with_def)
  with first second show ?thesis by blast
qed

section \<open>Properties of the table loaders and writers\<close>

lemma stem_ex: "stem ''d/sensors.csv'' = ''sensors''"
  by (simp add: stem_def path_name_def)

lemma stem_trailing_slash: "stem ''sensors/'' = ''sensors''"
  by (simp add: stem_def path_name_def)

lemma unsupported_backend_load:
  "data_system \<notin> set [''postgres'', ''file''] \<Longrightarrow>
     load_table_data cfg cast holds_na st table_name data_system = Inl ValueError"
  by (simp add: load_table_data_def check_data_system_def then_do_def)

lemma unsupported_backend_save:
  "data_system \<notin> set [''postgres'', ''file''] \<Longrightarrow>
     save_table_data cfg cast holds_na reserved dtypes md5 st table_name df data_system mode = Inl ValueError"
  by (simp add: save_table_data_def check_data_system_def then_do_def)

lemma load_undeclared_table:
  assumes "cfg (stem table_name) = None" and "data_system \<in> set [''postgres'', ''file'']"
  shows "load_table_data cfg cast holds_na st table_name data_system
         = (case (if data_system = ''postgres'' then load_postgres_data (database st) table_name
                  else load_table_data_from_file (files st) table_name) of
              None \<Rightarrow> Inr None
            | Some df \<Rightarrow> then_do (set_index_first df) (\<lambda>d. Inr (Some d)))"
  using assms
  by (auto simp: load_table_data_def check_data_system_def then_do_def split: option.splits)

lemma save_undeclared_table:
  assumes "cfg (stem table_name) = None" and "index d \<noteq> []"
  shows "save_table_data cfg cast holds_na reserved dtypes md5 st table_name (Some d) ''file'' mode
         = then_do (reset_index d) (\<lambda>fr. Inr (st\<lparr>files := (files st)(table_name \<mapsto> fr)\<rparr>))"
  using assms
  by (auto simp: save_table_data_def check_data_system_def then_do_def
      save_table_data_to_file_def split: sum.splits)

text \<open>
  C5 (configuration errors fail fast) fails on the save modes: both writers build the
  \<open>ValueError\<close> for an unsupported mode and never raise it. The file writer called
  with mode \<open>sync\<close> (the default of \<open>_save_table_data\<close>) writes the file as a
  \<open>replace\<close> would; the relational writer called with mode \<open>replace\<close> hands the
  mode to \<open>to_sql\<close>, which drops the target, primary key included, and recreates it
  from the dataset. (An unsupported backend name does raise, before anything is read
  or written: \<open>unsupported_backend_load\<close>, \<open>unsupported_backend_save\<close>.)
\<close>

theorem invalid_save_mode_not_raised:
  "save_table_data_to_file fs path df idx ''sync'' = Inr (fs(path \<mapsto> df))
   \<and> save_postgres_data reserved dtypes example_md5 example_db ''t'' example_frame (Some ''id'')
       ''replace''
       = Inr (example_db(''t'' \<mapsto> \<lparr>tcolumns = columns example_frame, tkey = None,
                tholds = dtypes example_frame,
                trows = map (sql_row (columns example_frame)) (rows example_frame)\<rparr>))"
  by (simp add: save_table_data_to_file_def save_postgres_data_def save_postgres_data_run_def
      to_sql_def example_db_def)

text \<open>
  C8 (schema coercion) fails on the load of a declared table: \<open>_load_table_data\<close>
  casts with the whole declaration, and \<open>astype\<close> raises \<open>KeyError\<close> for a declared
  column that the loaded table does not have, where \<open>_save_table_data\<close> casts the
  declared columns that are present. The table \<open>sensors\<close> is declared with the columns
  \<open>id\<close> and \<open>x\<close>; its file has \<open>id\<close> only. The load raises; the save of the same
  data writes the file.
\<close>

theorem load_declared_table_missing_column:
  "load_table_data example_cfg example_cast example_holds_na example_storage
     ''d/sensors.csv'' ''file'' = Inl KeyError
   \<and> map_sum id (\<lambda>st. map_option columns (files st ''d/sensors.csv''))
       (save_table_data example_cfg example_cast example_holds_na reserved dtypes example_md5
          \<lparr>database = Map.empty, files = Map.empty\<rparr> ''d/sensors.csv'' (Some example_dataframe)
          ''file'' ''replace'')
     = Inr (Some [''id''])"
  by (simp add: load_table_data_def save_table_data_def check_data_system_def then_do_def
      load_table_data_from_file_def example_storage_def example_dataframe_def reset_index_def
      example_cfg_def stem_ex astype_def drop_undeclared_def Let_def example_cast_def
      fillna_NA_def save_table_data_to_file_def)

section \<open>Properties of the time-series file loader\<close>

lemma mem_where_plus_1:
  "n \<in> set (where_plus_1 cond ts) \<longleftrightarrow> 0 < n \<and> n \<le> length ts \<and> cond (ts ! (n - 1))"
proof
  assume "n \<in> set (where_plus_1 cond ts)"
  then obtain i where "i < length ts" "cond (ts ! i)" "n = i + 1"
    by (auto simp: where_plus_1_def)
  then show "0 < n \<and> n \<le> length ts \<and> cond (ts ! (n - 1))" by simp
next
  assume h: "0 < n \<and> n \<le> length ts \<and> cond (ts ! (n - 1))"
  then have "n - 1 < length ts" "cond (ts ! (n - 1))" "n = (n - 1) + 1" by auto
  then show "n \<in> set (where_plus_1 cond ts)"
    unfolding where_plus_1_def by (metis (mono_tags, lifting) atLeast0LessThan image_eqI lessThan_iff mem_Collect_eq set_filter set_map set_upt)
qed

lemma zip_numbered_elem:
  assumes "(n, l) \<in> set (zip [1..<Suc (length xs)] xs)"
  shows "0 < n \<and> n \<le> length xs \<and> l = xs ! (n - 1)"
proof -
  from assms obtain i where i: "i < length xs" "[1..<Suc (length xs)] ! i = n" "xs ! i = l"
    by (auto simp: set_zip)
  then have "n = Suc i" by (simp del: upt_Suc)
  then show ?thesis using i by simp
qed

lemma read_csv_skiprows_filter:
  assumes "\<And>n. n \<in> set skiprows \<longleftrightarrow>
             0 < n \<and> n \<le> length (samples f) \<and> \<not> keep (samples f ! (n - 1))"
  shows "read_csv_skiprows f skiprows = filter keep (samples f)"
proof -
  let ?Z = "zip [1..<Suc (length (samples f))] (samples f)"
  have "filter (\<lambda>(n, l). n \<notin> set skiprows) ?Z = filter (keep \<circ> snd) ?Z"
  proof (rule filter_cong [OF refl])
    fix p assume p: "p \<in> set ?Z"
    obtain n l where nl: "p = (n, l)" by (cases p)
    from zip_numbered_elem [of n l "samples f"] p nl
    have "0 < n \<and> n \<le> length (samples f) \<and> l = samples f ! (n - 1)" by simp
    then show "(case p of (n, l) \<Rightarrow> n \<notin> set skiprows) = (keep \<circ> snd) p"
      using assms [of n] nl by auto
  qed
  then have "read_csv_skiprows f skiprows = map snd (filter (keep \<circ> snd) ?Z)"
    by (simp add: read_csv_skiprows_def)
  also have "\<dots> = filter keep (map snd ?Z)"
    by (simp add: filter_map)
  also have "map snd ?Z = samples f"
    by (simp del: upt_Suc)
  finally show ?thesis .
qed

lemma skiprows_of_bounds:
  "read_csv_skiprows f
     ((case a of None \<Rightarrow> [] | Some x \<Rightarrow> where_plus_1 (\<lambda>t. t < x) (map fst (samples f)))
      @ (case b of None \<Rightarrow> [] | Some y \<Rightarrow> where_plus_1 (\<lambda>t. y \<le> t) (map fst (samples f))))
   = filter (\<lambda>(t, r). in_range a b t) (samples f)"
proof (rule read_csv_skiprows_filter)
  fix n
  show "n \<in> set ((case a of None \<Rightarrow> [] | Some x \<Rightarrow> where_plus_1 (\<lambda>t. t < x) (map fst (samples f)))
      @ (case b of None \<Rightarrow> [] | Some y \<Rightarrow> where_plus_1 (\<lambda>t. y \<le> t) (map fst (samples f))))
    \<longleftrightarrow> 0 < n \<and> n \<le> length (samples f)
        \<and> \<not> (case samples f ! (n - 1) of (t, r) \<Rightarrow> in_range a b t)"
    by (cases a; cases b)
      (auto simp: mem_where_plus_1 in_range_def split_beta not_le not_less)
qed


lemma convert_datetime_parsed_index:
  "convert_datetime (Index (parsed_times off ts))
   = (if ts \<noteq> [] \<and> off \<noteq> None then Inl AttributeError else Inr (Index (Datetimes None ts)))"
  by (auto simp: convert_datetime_def parsed_times_def Let_def)

lemma convert_datetime_parsed_series:
  "convert_datetime (Series (parsed_times off ts)) = Inr (Series (Datetimes None ts))"
  by (simp add: convert_datetime_def parsed_times_def Let_def)

lemma read_csv_no_skiprows: "read_csv_skiprows f [] = samples f"
  by (rule read_csv_skiprows_filter [of "[]" f "\<lambda>_. True", simplified])

lemma load_unbounded:
  assumes "fs path = Some f"
  shows "load_time_series_data_from_file fs path None None
         = (if samples f \<noteq> [] \<and> time_offset f \<noteq> None then Inl AttributeError
            else Inr (Some \<lparr>ts_index_name = Some (time_header f),
                            ts_index = Datetimes None (map fst (samples f)),
                            ts_columns = data_header f, ts_rows = map snd (samples f)\<rparr>))"
  using assms
  by (simp add: load_time_series_data_from_file_def then_do_Inr then_do_Inl read_csv_no_skiprows
      convert_datetime_parsed_index Let_def)

lemma load_bounded:
  assumes "fs path = Some f" and "time_header f = ''time''" and "a \<noteq> None \<or> b \<noteq> None"
  shows "load_time_series_data_from_file fs path a b
         = (if filter (\<lambda>(t, r). in_range a b t) (samples f) \<noteq> [] \<and> time_offset f \<noteq> None
            then Inl AttributeError
            else Inr (Some \<lparr>ts_index_name = Some (time_header f),
                            ts_index = Datetimes None
                              (map fst (filter (\<lambda>(t, r). in_range a b t) (samples f))),
                            ts_columns = data_header f,
                            ts_rows = map snd (filter (\<lambda>(t, r). in_range a b t) (samples f))\<rparr>))"
proof -
  let ?skip = "(case a of None \<Rightarrow> [] | Some x \<Rightarrow> where_plus_1 (\<lambda>t. t < x) (map fst (samples f)))
              @ (case b of None \<Rightarrow> [] | Some y \<Rightarrow> where_plus_1 (\<lambda>t. y \<le> t) (map fst (samples f)))"
  have "load_time_series_data_from_file fs path a b
        = then_do (convert_datetime
                     (Index (parsed_times (time_offset f) (map fst (read_csv_skiprows f ?skip)))))
            (\<lambda>idx. Inr (Some \<lparr>ts_index_name = Some (time_header f), ts_index = values_of idx,
                               ts_columns = data_header f,
                               ts_rows = map snd (read_csv_skiprows f ?skip)\<rparr>))"
    using assms
    by (simp add: load_time_series_data_from_file_def then_do_Inr convert_datetime_parsed_series
        Let_def cong: option.case_cong)
  then show ?thesis
    by (simp add: skiprows_of_bounds convert_datetime_parsed_index then_do_Inr then_do_Inl)
qed

text \<open>
  The row skip itself is the filter. For every time-series file whose first column is
  named \<open>time\<close>, and all bounds \<open>a\<close> (inclusive) and \<open>b\<close> (exclusive), each optional:
  when the load without bounds returns a dataset, the load with the bounds returns
  exactly the rows of that dataset whose time \<open>t\<close> satisfies \<open>a \<le> t < b\<close>, in the same
  order, under the same index name and columns.
\<close>

lemma range_load_is_filtered_load:
  assumes "fs path = Some f" and "time_header f = ''time''"
    and "load_time_series_data_from_file fs path None None = Inr (Some df)"
  shows "load_time_series_data_from_file fs path a b = Inr (Some (filter_range a b df))"
proof -
  let ?s = "samples f"
  from assms(3) load_unbounded [of fs path f] assms(1)
  have ok: "\<not> (?s \<noteq> [] \<and> time_offset f \<noteq> None)"
    and df: "df = \<lparr>ts_index_name = Some (time_header f),
                   ts_index = Datetimes None (map fst ?s),
                   ts_columns = data_header f, ts_rows = map snd ?s\<rparr>"
    by (auto split: if_splits)
  let ?kept = "filter (\<lambda>(t, r). in_range a b t) ?s"
  have fr: "filter_range a b df
            = \<lparr>ts_index_name = Some (time_header f), ts_index = Datetimes None (map fst ?kept),
               ts_columns = data_header f, ts_rows = map snd ?kept\<rparr>"
    by (simp add: filter_range_def df zip_map_fst_snd Let_def)
  show ?thesis
  proof (cases "a = None \<and> b = None")
    case True
    then have "?kept = ?s" by (simp add: in_range_def)
    then show ?thesis using True assms(3) fr df by simp
  next
    case False
    have "\<not> (?kept \<noteq> [] \<and> time_offset f \<noteq> None)" using ok by auto
    then show ?thesis
      using load_bounded [of fs path f a b] assms(1,2) False fr by simp
  qed
qed

lemma range_load_is_filtered_load_example:
  "load_time_series_data_from_file [''f.csv'' \<mapsto> example_ts_file] ''f.csv'' (Some 2) (Some 3)
   = Inr (Some \<lparr>ts_index_name = Some ''time'', ts_index = Datetimes None [2],
                 ts_columns = [''0''], ts_rows = [[20]]\<rparr>)"
proof -
  have h1: "[''f.csv'' \<mapsto> example_ts_file] ''f.csv'' = Some example_ts_file" by simp
  have h2: "time_header example_ts_file = ''time''" by (simp add: example_ts_file_def)
  have h3: "load_time_series_data_from_file [''f.csv'' \<mapsto> example_ts_file] ''f.csv'' None None
            = Inr (Some \<lparr>ts_index_name = Some ''time'', ts_index = Datetimes None [1, 2, 3],
                          ts_columns = [''0''], ts_rows = [[10], [20], [30]]\<rparr>)"
    using load_unbounded [of "[''f.csv'' \<mapsto> example_ts_file]" "''f.csv''" example_ts_file]
    by (simp add: example_ts_file_def)
  show ?thesis
    using range_load_is_filtered_load [of "[''f.csv'' \<mapsto> example_ts_file]" "''f.csv''"
        example_ts_file _ "Some 2" "Some 3", OF h1 h2 h3]
    by (simp add: filter_range_def in_range_def Let_def)
qed

lemma load_bounded_renamed:
  assumes "fs path = Some f" and "time_header f \<noteq> ''time''" and "a \<noteq> None \<or> b \<noteq> None"
  shows "load_time_series_data_from_file fs path a b = Inl KeyError"
  using assms by (auto simp: load_time_series_data_from_file_def then_do_Inl)

text \<open>
  C6 (time-range filter equivalence) fails on a file whose index column is not named
  \<open>time\<close>. Without bounds the loader takes the index by position (\<open>index_col=0\<close>);
  with a bound it reads column 0 by position (\<open>usecols=[0]\<close>) and then selects it by the
  name \<open>time\<close>. The file with the index column \<open>timestamp\<close> loads without bounds, three
  rows at the times 1, 2 and 3; with the lower bound 2 the load raises \<open>KeyError\<close>,
  where the filter of the unbounded load has the rows at 2 and 3.
\<close>

theorem range_load_renamed_index_raises:
  "load_time_series_data_from_file [''f.csv'' \<mapsto> example_ts_file_renamed] ''f.csv'' None None
   = Inr (Some \<lparr>ts_index_name = Some ''timestamp'', ts_index = Datetimes None [1, 2, 3],
                 ts_columns = [''0''], ts_rows = [[10], [20], [30]]\<rparr>)
   \<and> load_time_series_data_from_file [''f.csv'' \<mapsto> example_ts_file_renamed] ''f.csv''
       (Some 2) None
     = Inl KeyError
   \<and> filter_range (Some 2) None
       \<lparr>ts_index_name = Some ''timestamp'', ts_index = Datetimes None [1, 2, 3],
        ts_columns = [''0''], ts_rows = [[10::int], [20], [30]]\<rparr>
     = \<lparr>ts_index_name = Some ''timestamp'', ts_index = Datetimes None [2, 3],
        ts_columns = [''0''], ts_rows = [[20], [30]]\<rparr>"
  by (simp add: load_time_series_data_from_file_def then_do_Inr then_do_Inl read_csv_no_skiprows
      convert_datetime_parsed_index example_ts_file_renamed_def example_ts_file_def Let_def
      filter_range_def in_range_def)


theorem range_load_renamed_index_raises_witness:
  "time_header example_ts_file_renamed = ''timestamp''
   \<and> load_time_series_data_from_file [''f.csv'' \<mapsto> example_ts_file_renamed] ''f.csv''
       (Some 2) None
     = Inl KeyError"
  using range_load_renamed_index_raises by (simp add: example_ts_file_renamed_def)

section \<open>Properties of the datetime conversion and the streaming writer\<close>

lemma convert_datetime_index:
  "convert_datetime (Index v)
   = (if tz v \<noteq> None then Inl AttributeError else Inr (Index (Datetimes None (stamps v))))"
  by (cases v) (auto simp: convert_datetime_def Let_def)

lemma convert_datetime_series:
  "convert_datetime (Series v) = Inr (Series (Datetimes None (stamps v)))"
  by (cases v) (auto simp: convert_datetime_def Let_def)

text \<open>
  What \<open>_convert_datetime\<close> returns is timezone-naive; it returns for every series, and
  for every index but one with a timezone.
\<close>

lemma convert_datetime_naive:
  "convert_datetime s = Inr s' \<Longrightarrow> tz (values_of s') = None"
  by (cases s) (auto simp: convert_datetime_index convert_datetime_series split: if_splits)

text \<open>
  C7 (time-index normalization) fails on a timezone-aware index: the branch for an
  object with the attribute \<open>tz\<close> calls \<open>tz_convert\<close> on the timezone instead of on
  the index, and raises \<open>AttributeError\<close>. The branch for a series, one line below,
  converts the same times.
\<close>

theorem convert_datetime_aware_index_raises:
  "convert_datetime (Index (Datetimes (Some ''UTC'') [0, 1, 2])) = Inl AttributeError
   \<and> convert_datetime (Series (Datetimes (Some ''UTC'') [0, 1, 2]))
     = Inr (Series (Datetimes None [0, 1, 2]))"
  by (simp add: convert_datetime_def)

text \<open>
  The streaming writer on a frame whose index has no timezone: the index of the
  caller's frame is replaced by its converted form (a \<open>RangeIndex\<close> becomes a
  \<open>DatetimeIndex\<close>), the snapshot holds the frame after that replacement, and nothing
  else changes, in this frame or at any other address.
\<close>

lemma streaming_save_naive:
  assumes "tz (ts_index (heap df)) = None"
  shows "save_time_series_data_streaming heap snapshots path df
         = Inr (heap(df := (heap df)\<lparr>ts_index := Datetimes None (stamps (ts_index (heap df)))\<rparr>),
                snapshots(path \<mapsto> (heap df)\<lparr>ts_index := Datetimes None (stamps (ts_index (heap df)))\<rparr>))"
  using assms
  by (simp add: save_time_series_data_streaming_def convert_datetime_index then_do_Inr Let_def)

lemma streaming_save_range_index:
  "save_time_series_data_streaming (\<lambda>a. example_range_frame) Map.empty ''s.csv'' 0
   = Inr ((\<lambda>a. example_range_frame)(0 := example_range_frame\<lparr>ts_index := Datetimes None [0, 1, 2]\<rparr>),
          [''s.csv'' \<mapsto> example_range_frame\<lparr>ts_index := Datetimes None [0, 1, 2]\<rparr>])"
  by (simp add: streaming_save_naive example_range_frame_def)

text \<open>
  C10 (the streaming save replaces the index of the caller's frame) fails on a frame
  whose index has a timezone: \<open>_convert_datetime\<close> raises before the assignment, the
  caller's frame keeps its index and no snapshot is written. This is the defect of C7.
\<close>

theorem streaming_save_aware_index_raises:
  "save_time_series_data_streaming (\<lambda>a. example_utc_frame) Map.empty ''s.csv'' 0
   = Inl AttributeError"
  by (simp add: save_time_series_data_streaming_def convert_datetime_index then_do_Inl
      example_utc_frame_def)

section \<open>Properties of the tag and field split\<close>

lemma pick_map: "pick (map P xs) xs = filter P xs"
  by (induction xs) (simp_all add: pick_def)

lemma with_stamps_same: "with_stamps v (stamps v) = v"
  by (cases v) simp_all

lemma filter_zip_absent:
  "t \<notin> set ts \<Longrightarrow> filter (\<lambda>(t', r'). t' = t) (zip ts rs) = []"
  by (auto simp: filter_empty_conv dest: set_zip_leftD)

lemma filter_zip_distinct:
  assumes "distinct ts" and "length rs = length ts" and "i < length ts"
  shows "filter (\<lambda>(t', r'). t' = ts ! i) (zip ts rs) = [(ts ! i, rs ! i)]"
  using assms
proof (induction ts arbitrary: rs i)
  case Nil
  then show ?case by simp
next
  case (Cons t ts)
  then obtain r rs' where rs: "rs = r # rs'" by (cases rs) auto
  show ?case
  proof (cases i)
    case 0
    have "t \<notin> set ts" using Cons.prems(1) by simp
    then show ?thesis using 0 rs filter_zip_absent [of t ts rs'] by simp
  next
    case (Suc j)
    then have j: "j < length ts" using Cons.prems(3) by simp
    then have "ts ! j \<noteq> t" using Cons.prems(1) by auto
    moreover have "filter (\<lambda>(t', r'). t' = ts ! j) (zip ts rs') = [(ts ! j, rs' ! j)]"
      using Cons.prems rs j by (intro Cons.IH) simp_all
    ultimately show ?thesis using Suc rs by auto
  qed
qed

lemma join_rows_triples:
  assumes "\<forall>(t, l, r)\<in>set trs. filter (\<lambda>(t', r'). t' = t) R = [(t, r)]"
  shows "join_rows w (map (\<lambda>(t, l, r). (t, l)) trs) R = map (\<lambda>(t, l, r). (t, l @ r)) trs"
  using assms
  by (induction trs) (auto simp: join_rows_def)

lemma join_rows_distinct:
  assumes "distinct ts" and "length ls = length ts" and "length rs = length ts"
  shows "join_rows w (zip ts ls) (zip ts rs) = map (\<lambda>(t, l, r). (t, l @ r)) (zip ts (zip ls rs))"
proof -
  let ?trs = "zip ts (zip ls rs)"
  have l: "map (\<lambda>(t, l, r). (t, l)) ?trs = zip ts ls"
    using assms(2,3)
  proof (induction ts arbitrary: ls rs)
    case Nil
    then show ?case by simp
  next
    case (Cons t ts)
    then obtain l ls' r rs' where "ls = l # ls'" "rs = r # rs'"
      by (cases ls; cases rs) auto
    then show ?case using Cons by simp
  qed
  have "\<forall>(t, l, r)\<in>set ?trs. filter (\<lambda>(t', r'). t' = t) (zip ts rs) = [(t, r)]"
  proof (clarify)
    fix t l r assume "(t, l, r) \<in> set ?trs"
    then obtain i where i: "i < length ts" "t = ts ! i" "r = rs ! i"
      using assms(2,3) by (auto simp: set_zip)
    then show "filter (\<lambda>(t', r'). t' = t) (zip ts rs) = [(t, r)]"
      using filter_zip_distinct [of ts rs i] assms(1,3) by simp
  qed
  from join_rows_triples [OF this, of w] show ?thesis by (simp only: l)
qed

lemma joined_fst:
  assumes "length ls = length ts" and "length rs = length ts"
  shows "map fst (map (\<lambda>(t, l, r). (t, l @ r)) (zip ts (zip ls rs))) = ts"
  using assms
proof (induction ts arbitrary: ls rs)
  case Nil
  then show ?case by simp
next
  case (Cons t ts)
  then obtain l ls' r rs' where "ls = l # ls'" "rs = r # rs'"
    by (cases ls; cases rs) auto
  then show ?case using Cons by simp
qed

lemma joined_snd:
  assumes "length xs = length ts"
  shows "map snd (map (\<lambda>(t, l, r). (t, l @ r)) (zip ts (zip (map f xs) (map g xs))))
         = map (\<lambda>r. f r @ g r) xs"
  using assms
proof (induction ts arbitrary: xs)
  case Nil
  then show ?case by simp
next
  case (Cons t ts)
  then obtain r xs' where "xs = r # xs'" by (cases xs) auto
  then show ?case using Cons by simp
qed

lemma pick_Nil [simp]: "pick m [] = []"
  by (simp add: pick_def)

lemma pick_False_prefix: "pick (replicate a False @ m) r = pick m (drop a r)"
proof (induction a arbitrary: r)
  case 0
  then show ?case by simp
next
  case (Suc a)
  then show ?case by (cases r) (simp_all add: pick_def)
qed

lemma pick_True_prefix: "pick (replicate a True @ m) r = take a r @ pick m (drop a r)"
proof (induction a arbitrary: r)
  case 0
  then show ?case by simp
next
  case (Suc a)
  show ?case
  proof (cases r)
    case Nil
    then show ?thesis by simp
  next
    case (Cons x xs)
    have "pick (replicate (Suc a) True @ m) (x # xs) = x # pick (replicate a True @ m) xs"
      by (simp add: pick_def)
    then show ?thesis using Cons Suc [of xs] by simp
  qed
qed

lemma pick_all_False: "pick (replicate b False) r = []"
  using pick_False_prefix [of b "[]" r] by (simp add: pick_def)

lemma pick_all_True: "length r \<le> b \<Longrightarrow> pick (replicate b True) r = r"
  using pick_True_prefix [of b "[]" r] by (simp add: pick_def)

lemma pick_fields_then_tags:
  assumes "m = replicate a False @ replicate b True" and "length r = a + b"
  shows "pick (map Not m) r @ pick m r = r"
proof -
  have "pick (map Not m) r = take a r"
    using assms(1) pick_True_prefix [of a "replicate b False" r] by (simp add: pick_all_False)
  moreover have "pick m r = drop a r"
    using assms pick_False_prefix [of a "replicate b True" r] by (simp add: pick_all_True)
  ultimately show ?thesis by simp
qed

lemma map_filter_const: "map P (filter (\<lambda>x. P x = v) xs) = replicate (length (filter (\<lambda>x. P x = v) xs)) v"
  by (induction xs) simp_all

lemma mask_fields_then_tags:
  assumes "xs = filter (\<lambda>c. \<not> P c) xs @ filter P xs"
  shows "map P xs = replicate (length (filter (\<lambda>c. \<not> P c) xs)) False
                    @ replicate (length (filter P xs)) True"
proof -
  have "map P xs = map P (filter (\<lambda>c. \<not> P c) xs @ filter P xs)"
    using assms by (rule arg_cong)
  also have "\<dots> = map P (filter (\<lambda>c. P c = False) xs) @ map P (filter (\<lambda>c. P c = True) xs)"
    by simp
  also have "\<dots> = replicate (length (filter (\<lambda>c. P c = False) xs)) False
                   @ replicate (length (filter (\<lambda>c. P c = True) xs)) True"
    by (simp only: map_filter_const)
  finally show ?thesis by simp
qed

lemma rows_fields_then_tags:
  assumes "ts_columns df = filter (\<lambda>c. \<not> str_match TAG_KEYS c) (ts_columns df)
                            @ filter (str_match TAG_KEYS) (ts_columns df)"
    and "\<forall>r\<in>set (ts_rows df). length r = length (ts_columns df)"
  shows "map (\<lambda>r. pick (map Not (tag_idx df)) r @ pick (tag_idx df) r) (ts_rows df) = ts_rows df"
proof -
  let ?a = "length (filter (\<lambda>c. \<not> str_match TAG_KEYS c) (ts_columns df))"
  let ?b = "length (filter (str_match TAG_KEYS) (ts_columns df))"
  have m: "tag_idx df = replicate ?a False @ replicate ?b True"
    unfolding tag_idx_def using assms(1) by (rule mask_fields_then_tags)
  have "length (ts_columns df) = ?a + ?b"
    using arg_cong [OF assms(1), of length] by simp
  then have "\<forall>r\<in>set (ts_rows df). pick (map Not (tag_idx df)) r @ pick (tag_idx df) r = r"
    using assms(2) pick_fields_then_tags [OF m] by auto
  then show ?thesis by (simp add: map_idI)
qed

text \<open>
  C9 (tag/field round trip), as stated, fails on a dataset in which a tag column stands
  before a field column: the join puts the columns of the field part first. The dataset
  with the columns \<open>batch_id\<close>, \<open>0\<close> and one row for each of the times 1 and 2 comes
  back with the columns \<open>0\<close>, \<open>batch_id\<close> and the cells of every row exchanged.
\<close>

theorem tag_field_round_trip_counterexample:
  "export_joined example_tag_first_frame
   = Inr \<lparr>ts_index_name = Some ''time'', ts_index = Datetimes None [1, 2],
          ts_columns = [''0'', ''batch_id''],
          ts_rows = [[Val 10, Val 7], [Val 20, Val 8]]\<rparr>
   \<and> ts_columns example_tag_first_frame = [''batch_id'', ''0'']
   \<and> ts_rows example_tag_first_frame = [[Val 7, Val 10], [Val 8, Val 20]]
   \<and> distinct (stamps (ts_index example_tag_first_frame))"
  by (simp add: export_joined_def join_left_def import_fields_def import_tags_def
      loc_columns_def tag_idx_def str_match_def starts_with_def TAG_KEYS_def pick_def
      example_tag_first_frame_def join_rows_def Let_def)

text \<open>
  C9 as amended. For every time-indexed dataset whose times are pairwise distinct (one
  row per time): the field part and the tag part have the index of the dataset, and
  joining them returns, without raising, a dataset with the same index name, the same
  index and as many rows, in the same order; its columns are the field columns of the
  dataset followed by its tag columns, and each row holds the cells of the original
  row under these columns. When the field columns of the dataset precede its tag
  columns already (and every row has one cell per column), the join returns the dataset
  itself.
\<close>

theorem tag_field_round_trip:
  assumes "distinct (stamps (ts_index df))"
    and "length (ts_rows df) = length (stamps (ts_index df))"
  shows "ts_index (import_fields df) = ts_index df \<and> ts_index (import_tags df) = ts_index df
         \<and> export_joined df
           = Inr \<lparr>ts_index_name = ts_index_name df, ts_index = ts_index df,
                  ts_columns = filter (\<lambda>c. \<not> str_match TAG_KEYS c) (ts_columns df)
                               @ filter (str_match TAG_KEYS) (ts_columns df),
                  ts_rows = map (\<lambda>r. pick (map Not (tag_idx df)) r @ pick (tag_idx df) r)
                              (ts_rows df)\<rparr>
         \<and> (ts_columns df = filter (\<lambda>c. \<not> str_match TAG_KEYS c) (ts_columns df)
                               @ filter (str_match TAG_KEYS) (ts_columns df)
              \<and> (\<forall>r\<in>set (ts_rows df). length r = length (ts_columns df))
              \<longrightarrow> export_joined df = Inr df)"
proof -
  let ?ts = "stamps (ts_index df)"
  let ?m = "tag_idx df"
  let ?ls = "map (pick (map Not ?m)) (ts_rows df)"
  let ?rs = "map (pick ?m) (ts_rows df)"
  have i: "ts_index (import_fields df) = ts_index df" "ts_index (import_tags df) = ts_index df"
    by (simp_all add: import_fields_def import_tags_def loc_columns_def)
  have cf: "ts_columns (import_fields df) = filter (\<lambda>c. \<not> str_match TAG_KEYS c) (ts_columns df)"
    using pick_map [of "Not \<circ> str_match TAG_KEYS" "ts_columns df"]
    by (simp add: import_fields_def loc_columns_def tag_idx_def comp_def)
  have ct: "ts_columns (import_tags df) = filter (str_match TAG_KEYS) (ts_columns df)"
    by (simp add: import_tags_def loc_columns_def tag_idx_def pick_map)
  have rf: "ts_rows (import_fields df) = ?ls" "ts_rows (import_tags df) = ?rs"
    by (simp_all add: import_fields_def import_tags_def loc_columns_def)
  have n: "ts_index_name (import_fields df) = ts_index_name df"
    by (simp add: import_fields_def loc_columns_def)
  have disj: "set (filter (\<lambda>c. \<not> str_match TAG_KEYS c) (ts_columns df))
              \<inter> set (filter (str_match TAG_KEYS) (ts_columns df)) = {}"
    by auto
  have j: "join_rows w (zip ?ts ?ls) (zip ?ts ?rs)
           = map (\<lambda>(t, l, r). (t, l @ r)) (zip ?ts (zip ?ls ?rs))" for w
    using assms by (intro join_rows_distinct) simp_all
  have f: "map fst (map (\<lambda>(t, l, r). (t, l @ r)) (zip ?ts (zip ?ls ?rs))) = ?ts"
    using assms(2) by (intro joined_fst) simp_all
  have s: "map snd (map (\<lambda>(t, l, r). (t, l @ r)) (zip ?ts (zip ?ls ?rs)))
           = map (\<lambda>r. pick (map Not ?m) r @ pick ?m r) (ts_rows df)"
    using assms(2) by (rule joined_snd)
  have "export_joined df
        = Inr \<lparr>ts_index_name = ts_index_name df, ts_index = with_stamps (ts_index df) ?ts,
               ts_columns = filter (\<lambda>c. \<not> str_match TAG_KEYS c) (ts_columns df)
                            @ filter (str_match TAG_KEYS) (ts_columns df),
               ts_rows = map (\<lambda>r. pick (map Not ?m) r @ pick ?m r) (ts_rows df)\<rparr>"
    unfolding export_joined_def join_left_def Let_def
    by (simp only: i rf j f s n cf ct disj if_False simp_thms)
  then have main: "export_joined df
        = Inr \<lparr>ts_index_name = ts_index_name df, ts_index = ts_index df,
               ts_columns = filter (\<lambda>c. \<not> str_match TAG_KEYS c) (ts_columns df)
                            @ filter (str_match TAG_KEYS) (ts_columns df),
               ts_rows = map (\<lambda>r. pick (map Not ?m) r @ pick ?m r) (ts_rows df)\<rparr>"
    by (simp add: with_stamps_same)
  have same: "export_joined df = Inr df"
    if c: "ts_columns df = filter (\<lambda>c. \<not> str_match TAG_KEYS c) (ts_columns df)
                           @ filter (str_match TAG_KEYS) (ts_columns df)"
      and r: "\<forall>r\<in>set (ts_rows df). length r = length (ts_columns df)"
  proof -
    have "map (\<lambda>r. pick (map Not ?m) r @ pick ?m r) (ts_rows df) = ts_rows df"
      using c r by (rule rows_fields_then_tags)
    then have "export_joined df
               = Inr \<lparr>ts_index_name = ts_index_name df, ts_index = ts_index df,
                      ts_columns = ts_columns df, ts_rows = ts_rows df\<rparr>"
      using main c by simp
    then show ?thesis by simp
  qed
  show ?thesis using i main same by blast
qed

theorem tag_field_round_trip_witness:
  "distinct (stamps (ts_index example_tagged_frame))
   \<and> length (ts_rows example_tagged_frame) = length (stamps (ts_index example_tagged_frame))
   \<and> ts_columns example_tagged_frame
     = filter (\<lambda>c. \<not> str_match TAG_KEYS c) (ts_columns example_tagged_frame)
       @ filter (str_match TAG_KEYS) (ts_columns example_tagged_frame)
   \<and> export_joined example_tagged_frame = Inr example_tagged_frame"
  using tag_field_round_trip [of example_tagged_frame]
  by (simp add: example_tagged_frame_def tag_idx_def str_match_def starts_with_def TAG_KEYS_def
      pick_def)

end
